theory Spec2Isabelle
  imports Complex_Main "HOL-Library.Product_Lexorder" "HOL-Library.Log_Nat"
begin

section \<open>Step-and-repeat imposition: the planning core of step_and_repeat_imposition.py\<close>

text \<open>
  The script computes with Python floats. They are modelled as exact numbers of type
  \<open>real\<close>: every sum, product and quotient below is the mathematical one, and rounding
  is not part of the model. The one place where rounding decides the outcome, the safety
  check on the final margins, is modelled a second time in double precision (the
  definitions with the suffix \<open>_fl\<close>). Python's unbounded \<open>int\<close> (the grid counts) is
  \<open>int\<close>.
  Exceptions are values of the type \<open>error\<close>; a function that can raise returns
  \<open>error + 'a\<close> with \<open>Inl\<close> for the exception.
\<close>

subsection \<open>Constants\<close>

definition MM_TO_PT :: real where
  "MM_TO_PT = 72 / 25.4"

definition PAPER_SIZES_MM :: "(string \<times> (real \<times> real)) list" where
  "PAPER_SIZES_MM =
     [(''A4'', (210, 297)),
      (''A3'', (297, 420)),
      (''SRA4'', (225, 320)),
      (''SRA3'', (320, 450))]"

definition BACK_OFFSET_X_MM :: real where
  "BACK_OFFSET_X_MM = - 2.5"

definition BACK_OFFSET_Y_MM :: real where
  "BACK_OFFSET_Y_MM = 0.0"

subsection \<open>Exceptions\<close>

text \<open>
  The script raises \<open>ValueError\<close> with six different messages and \<open>RuntimeError\<close> once.
  Each raise site gets its own constructor, named as the specification names the failure;
  \<open>is_ValueError\<close> records the Python class, which is what the \<open>except ValueError\<close> of
  the enumeration loop looks at. A float floor division by zero raises
  \<open>ZeroDivisionError\<close>, which that handler does not catch.
\<close>

datatype error =
    UnknownFormat
  | GridTooSmall
  | OverTrimmed
  | TooFewPages
  | MarginTooLarge
  | NoViableScenario
  | InvariantViolation
  | ZeroDivisionError

fun is_ValueError :: "error \<Rightarrow> bool" where
  "is_ValueError InvariantViolation = False"
| "is_ValueError ZeroDivisionError = False"
| "is_ValueError _ = True"

subsection \<open>Unit and format resolver\<close>

definition mm_to_points :: "real \<Rightarrow> real \<Rightarrow> real \<times> real" where
  "mm_to_points w_mm h_mm = (w_mm * MM_TO_PT, h_mm * MM_TO_PT)"

text \<open>
  \<open>str.upper\<close> on the ASCII letters; every other character is left as it is.
\<close>

definition upper_char :: "char \<Rightarrow> char" where
  "upper_char c =
     (let n = (of_char c :: nat)
      in if 97 \<le> n \<and> n \<le> 122 then char_of (n - 32) else c)"

definition upper :: "string \<Rightarrow> string" where
  "upper s = map upper_char s"

definition get_sheet_size :: "string \<Rightarrow> error + (real \<times> real)" where
  "get_sheet_size format_name =
     (let fmt = upper format_name
      in case map_of PAPER_SIZES_MM fmt of
           None \<Rightarrow> Inl UnknownFormat
         | Some (w_mm, h_mm) \<Rightarrow> Inr (mm_to_points w_mm h_mm))"

subsection \<open>Grid fit\<close>

text \<open>
  \<open>usable_w // card_w\<close> on floats is the floor of the quotient and raises
  \<open>ZeroDivisionError\<close> for a zero divisor; \<open>int\<close> of the (integral) result is exact.
  The two divisions are evaluated in the order of the source.
\<close>

definition compute_grid ::
  "real \<Rightarrow> real \<Rightarrow> real \<Rightarrow> real \<Rightarrow> error + (int \<times> int \<times> real \<times> real)" where
  "compute_grid card_w card_h usable_w usable_h =
     (if card_w = 0 then Inl ZeroDivisionError
      else let cols = \<lfloor>usable_w / card_w\<rfloor>
      in if card_h = 0 then Inl ZeroDivisionError
      else let rows = \<lfloor>usable_h / card_h\<rfloor>
      in if cols < 1 \<or> rows < 1 then Inl GridTooSmall
      else let used_w = of_int cols * card_w;
               used_h = of_int rows * card_h;
               margin_x = (usable_w - used_w) / 2;
               margin_y = (usable_h - used_h) / 2
           in Inr (cols, rows, margin_x, margin_y))"

subsection \<open>Scenario enumerator\<close>

record scenario =
  trim_mm :: real
  rotate :: bool
  cols :: int
  rows :: int
  inner_mx :: real
  inner_my :: real
  card_w_eff :: real
  card_h_eff :: real
  capacity :: int

text \<open>
  The inner loop \<open>for rotate in (False, True)\<close> of \<open>main\<close>, as a recursion over the
  rotation flags still to visit; \<open>scenarios\<close> is the list built so far. A \<open>ValueError\<close>
  of \<open>compute_grid\<close> skips the flag, any other exception leaves the loop.
\<close>

fun rotate_loop ::
  "real \<Rightarrow> real \<Rightarrow> real \<Rightarrow> real \<Rightarrow> real \<Rightarrow> bool list \<Rightarrow> scenario list
     \<Rightarrow> error + scenario list" where
  "rotate_loop trim card_w card_h usable_w usable_h [] scenarios = Inr scenarios"
| "rotate_loop trim card_w card_h usable_w usable_h (rot # rest) scenarios =
     (let w_eff = (if rot then card_h else card_w);
          h_eff = (if rot then card_w else card_h)
      in (case compute_grid w_eff h_eff usable_w usable_h of
            Inl e \<Rightarrow>
              (if is_ValueError e
               then rotate_loop trim card_w card_h usable_w usable_h rest scenarios
               else Inl e)
          | Inr (c, r, mx, my) \<Rightarrow>
              rotate_loop trim card_w card_h usable_w usable_h rest
                (scenarios @
                 [\<lparr>trim_mm = trim, rotate = rot, cols = c, rows = r,
                   inner_mx = mx, inner_my = my,
                   card_w_eff = w_eff, card_h_eff = h_eff,
                   capacity = c * r\<rparr>])))"

text \<open>
  The trimmed card of one trim candidate, and the outer loop
  \<open>for trim_mm in trim_candidates_mm\<close>.
\<close>

definition trimmed_card :: "real \<Rightarrow> real \<Rightarrow> real \<Rightarrow> real \<times> real" where
  "trimmed_card orig_w orig_h trim =
     (let trim_pts = trim * MM_TO_PT;
          card_w = (if trim > 0 then orig_w - 2 * trim_pts else orig_w);
          card_h = (if trim > 0 then orig_h - 2 * trim_pts else orig_h)
      in (card_w, card_h))"

fun trim_loop ::
  "real \<Rightarrow> real \<Rightarrow> real \<Rightarrow> real \<Rightarrow> real list \<Rightarrow> scenario list
     \<Rightarrow> error + scenario list" where
  "trim_loop orig_w orig_h usable_w usable_h [] scenarios = Inr scenarios"
| "trim_loop orig_w orig_h usable_w usable_h (trim # rest) scenarios =
     (case trimmed_card orig_w orig_h trim of (card_w, card_h) \<Rightarrow>
        if card_w \<le> 0 \<or> card_h \<le> 0
        then trim_loop orig_w orig_h usable_w usable_h rest scenarios
        else (case rotate_loop trim card_w card_h usable_w usable_h [False, True] scenarios of
                Inl e \<Rightarrow> Inl e
              | Inr scenarios' \<Rightarrow>
                  trim_loop orig_w orig_h usable_w usable_h rest scenarios'))"

definition trim_candidates_mm :: "real list" where
  "trim_candidates_mm = [0.0, 2.0]"

definition enumerate_scenarios :: "real \<Rightarrow> real \<Rightarrow> real \<Rightarrow> real \<Rightarrow> error + scenario list" where
  "enumerate_scenarios orig_w orig_h usable_w usable_h =
     trim_loop orig_w orig_h usable_w usable_h trim_candidates_mm []"

subsection \<open>Scenario selector\<close>

text \<open>
  \<open>scenarios.sort(key=..., reverse=True)\<close>: Python's sort is stable, and with
  \<open>reverse=True\<close> it reverses the list, sorts it ascending and stably, and reverses the
  result, so that elements with equal keys keep their order. Tuples compare
  lexicographically and \<open>False < True\<close>, as in the lexicographic order on products.
\<close>

definition sort_reverse :: "('a \<Rightarrow> 'k::linorder) \<Rightarrow> 'a list \<Rightarrow> 'a list" where
  "sort_reverse key xs = rev (sort_key key (rev xs))"

definition scenario_key :: "scenario \<Rightarrow> int \<times> real \<times> bool" where
  "scenario_key s = (capacity s, - trim_mm s, \<not> rotate s)"

definition select_best :: "scenario list \<Rightarrow> error + scenario" where
  "select_best scenarios =
     (if scenarios = [] then Inl NoViableScenario
      else Inr (hd (sort_reverse scenario_key scenarios)))"

subsection \<open>Pages and cropping\<close>

text \<open>
  A page of the document library, as far as the script reads and writes it: the two
  corners of its media box. \<open>width\<close> and \<open>height\<close> are derived from the corners.
\<close>

record rectangle =
  lower_left :: "real \<times> real"
  upper_right :: "real \<times> real"

record page =
  mediabox :: rectangle

definition width :: "rectangle \<Rightarrow> real" where
  "width r = fst (upper_right r) - fst (lower_left r)"

definition height :: "rectangle \<Rightarrow> real" where
  "height r = snd (upper_right r) - snd (lower_left r)"

text \<open>
  \<open>crop_page_all_sides\<close> mutates its page or raises. The model returns the page as the
  call leaves it together with the exception, if any.
\<close>

definition crop_page_all_sides :: "page \<Rightarrow> real \<Rightarrow> page \<times> error option" where
  "crop_page_all_sides pg trim_loss_mm =
     (if trim_loss_mm \<le> 0 then (pg, None)
      else
        let trim_pts = trim_loss_mm * MM_TO_PT;
            (llx, lly) = lower_left (mediabox pg);
            (urx, ury) = upper_right (mediabox pg);
            new_llx = llx + trim_pts;
            new_lly = lly + trim_pts;
            new_urx = urx - trim_pts;
            new_ury = ury - trim_pts
        in if new_urx \<le> new_llx \<or> new_ury \<le> new_lly then (pg, Some OverTrimmed)
           else
             let pg1 = pg\<lparr>mediabox := (mediabox pg)\<lparr>lower_left := (new_llx, new_lly)\<rparr>\<rparr>;
                 pg2 = pg1\<lparr>mediabox := (mediabox pg1)\<lparr>upper_right := (new_urx, new_ury)\<rparr>\<rparr>
             in (pg2, None))"

subsection \<open>Sheet compositor: the planning part of \<open>main\<close>\<close>

record args =
  paper :: string
  margin_mm :: "real option"
  margin_x_mm :: real
  margin_y_mm :: real

text \<open>
  What \<open>main\<close> has computed when it starts to emit pages: the chosen scenario, the two
  pages as the crop left them, the sheet, the card as re-read from the front page, and
  the final margins on the whole sheet.
\<close>

record plan =
  best :: scenario
  front_page :: page
  back_page :: page
  sheet_w :: real
  sheet_h :: real
  final_card_w :: real
  final_card_h :: real
  plan_card_w_eff :: real
  plan_card_h_eff :: real
  margin_x :: real
  margin_y :: real

definition min_margins_mm :: "args \<Rightarrow> real \<times> real" where
  "min_margins_mm a =
     (case margin_mm a of
        Some m \<Rightarrow> (m, m)
      | None \<Rightarrow> (margin_x_mm a, margin_y_mm a))"

text \<open>
  \<open>if best["trim_mm"] > 0: crop front, then crop back\<close>. An exception of the first crop
  leaves the second undone.
\<close>

definition apply_trim :: "scenario \<Rightarrow> page \<Rightarrow> page \<Rightarrow> error + (page \<times> page)" where
  "apply_trim b front back =
     (if trim_mm b > 0 then
        (case crop_page_all_sides front (trim_mm b) of
           (front', Some e) \<Rightarrow> Inl e
         | (front', None) \<Rightarrow>
             (case crop_page_all_sides back (trim_mm b) of
                (back', Some e) \<Rightarrow> Inl e
              | (back', None) \<Rightarrow> Inr (front', back')))
      else Inr (front, back))"

text \<open>
  From the chosen scenario to the final margins and the safety check (the source from
  \<open>final_card_w = ...\<close> to the \<open>RuntimeError\<close>).
\<close>

definition compose ::
  "scenario \<Rightarrow> page \<Rightarrow> page \<Rightarrow> real \<Rightarrow> real \<Rightarrow> real \<Rightarrow> real \<Rightarrow> error + plan" where
  "compose b front back sh_w sh_h margin_x_min_pts margin_y_min_pts =
     (let fin_w = width (mediabox front);
          fin_h = height (mediabox front);
          w_eff = (if rotate b then fin_h else fin_w);
          h_eff = (if rotate b then fin_w else fin_h);
          grid_w = of_int (cols b) * w_eff;
          grid_h = of_int (rows b) * h_eff;
          mx = (sh_w - grid_w) / 2;
          my = (sh_h - grid_h) / 2
      in if mx < margin_x_min_pts - 0.01 \<or> my < margin_y_min_pts - 0.01
         then Inl InvariantViolation
         else Inr \<lparr>best = b, front_page = front, back_page = back,
                   sheet_w = sh_w, sheet_h = sh_h,
                   final_card_w = fin_w, final_card_h = fin_h,
                   plan_card_w_eff = w_eff, plan_card_h_eff = h_eff,
                   margin_x = mx, margin_y = my\<rparr>)"

text \<open>
  \<open>main\<close> up to and including the safety check. \<open>pages\<close> is \<open>reader.pages\<close>. Argument
  parsing, the output file name and the console report are left out.
\<close>

definition main_plan :: "args \<Rightarrow> page list \<Rightarrow> error + plan" where
  "main_plan a pages =
     (case min_margins_mm a of (mx_mm, my_mm) \<Rightarrow>
      if length pages < 2 then Inl TooFewPages
      else
        let front = pages ! 0;
            back = pages ! 1;
            orig_w = width (mediabox front);
            orig_h = height (mediabox front)
        in (case get_sheet_size (paper a) of
              Inl e \<Rightarrow> Inl e
            | Inr (sh_w, sh_h) \<Rightarrow>
                let margin_x_min_pts = mx_mm * MM_TO_PT;
                    margin_y_min_pts = my_mm * MM_TO_PT;
                    usable_w = sh_w - 2 * margin_x_min_pts;
                    usable_h = sh_h - 2 * margin_y_min_pts
                in if usable_w \<le> 0 \<or> usable_h \<le> 0 then Inl MarginTooLarge
                   else
                     (case enumerate_scenarios orig_w orig_h usable_w usable_h of
                        Inl e \<Rightarrow> Inl e
                      | Inr scenarios \<Rightarrow>
                          (case select_best scenarios of
                             Inl e \<Rightarrow> Inl e
                           | Inr b \<Rightarrow>
                               (case apply_trim b front back of
                                  Inl e \<Rightarrow> Inl e
                                | Inr (front', back') \<Rightarrow>
                                    compose b front' back' sh_w sh_h
                                      margin_x_min_pts margin_y_min_pts)))))"

subsection \<open>Placement emitter\<close>

text \<open>
  The transformation of the document library, as the library documents it: six numbers
  \<open>(a, b, c, d, e, f)\<close> of an affine map that sends the point \<open>(x, y)\<close> to
  \<open>(a x + c y + e, b x + d y + f)\<close>. \<open>rotate\<close> multiplies by the counter-clockwise
  rotation about \<open>(0, 0)\<close> by an angle in degrees, \<open>translate\<close> adds to \<open>e\<close> and \<open>f\<close>.
\<close>

datatype transformation = Transformation real real real real real real

definition identity_transformation :: transformation where
  "identity_transformation = Transformation 1 0 0 1 0 0"

fun transformation_rotate :: "transformation \<Rightarrow> real \<Rightarrow> transformation" where
  "transformation_rotate (Transformation a b c d e f) rotation =
     (let r = rotation * pi / 180
      in Transformation
           (a * cos r - b * sin r) (a * sin r + b * cos r)
           (c * cos r - d * sin r) (c * sin r + d * cos r)
           (e * cos r - f * sin r) (e * sin r + f * cos r))"

fun transformation_translate :: "transformation \<Rightarrow> real \<Rightarrow> real \<Rightarrow> transformation" where
  "transformation_translate (Transformation a b c d e f) tx ty =
     Transformation a b c d (e + tx) (f + ty)"

fun apply_on :: "transformation \<Rightarrow> real \<times> real \<Rightarrow> real \<times> real" where
  "apply_on (Transformation a b c d e f) (x, y) = (x * a + y * c + e, x * b + y * d + f)"

text \<open>
  The origin of a grid cell and the transformation \<open>impose_side\<close> builds for it.
\<close>

definition cell_origin :: "real \<Rightarrow> real \<Rightarrow> real \<Rightarrow> real \<Rightarrow> int \<Rightarrow> int \<Rightarrow> real \<times> real" where
  "cell_origin mx my w_eff h_eff col row =
     (mx + of_int col * w_eff, my + of_int row * h_eff)"

definition cell_transformation :: "bool \<Rightarrow> real \<Rightarrow> real \<times> real \<Rightarrow> transformation" where
  "cell_transformation rot card_h_raw xy =
     (case xy of (x, y) \<Rightarrow>
        if rot
        then transformation_translate (transformation_rotate identity_transformation 90)
               (x + card_h_raw) y
        else transformation_translate identity_transformation x y)"

text \<open>
  \<open>impose_side\<close>: the new sheet is the list of the transformations under which the
  base page is merged into it, in the order of the two loops (rows outside, columns
  inside). \<open>range(n)\<close> is \<open>[0..n - 1]\<close>, empty for \<open>n \<le> 0\<close>.
\<close>

definition impose_side ::
  "page \<Rightarrow> int \<Rightarrow> int \<Rightarrow> real \<Rightarrow> real \<Rightarrow> real \<Rightarrow> real \<Rightarrow> bool \<Rightarrow> transformation list" where
  "impose_side base_page n_cols n_rows mx my w_eff h_eff rot =
     (let card_h_raw = height (mediabox base_page)
      in concat
           (map (\<lambda>row.
                   map (\<lambda>col.
                          cell_transformation rot card_h_raw
                            (cell_origin mx my w_eff h_eff col row))
                       [0..n_cols - 1])
                [0..n_rows - 1]))"

text \<open>
  The two calls of \<open>impose_side\<close> at the end of \<open>main\<close>: the front sheet, and the back
  sheet with the duplex correction added to both margins.
\<close>

definition main_emit :: "plan \<Rightarrow> transformation list \<times> transformation list" where
  "main_emit p =
     (let back_offset_x = BACK_OFFSET_X_MM * MM_TO_PT;
          back_offset_y = BACK_OFFSET_Y_MM * MM_TO_PT;
          b = best p
      in (impose_side (front_page p) (cols b) (rows b) (margin_x p) (margin_y p)
            (plan_card_w_eff p) (plan_card_h_eff p) (rotate b),
          impose_side (back_page p) (cols b) (rows b)
            (margin_x p + back_offset_x) (margin_y p + back_offset_y)
            (plan_card_w_eff p) (plan_card_h_eff p) (rotate b)))"

text \<open>
  Where a merged page ends up: the library clips the content of the base page to its box
  and maps it by the transformation, so the placed card covers the image of the box. Its
  bounding box is spanned by the images of the four corners.
\<close>

definition placed_corners :: "transformation \<Rightarrow> rectangle \<Rightarrow> (real \<times> real) list" where
  "placed_corners t r =
     (case (lower_left r, upper_right r) of ((x0, y0), (x1, y1)) \<Rightarrow>
        [apply_on t (x0, y0), apply_on t (x1, y0), apply_on t (x0, y1), apply_on t (x1, y1)])"

definition placed_lower_left :: "transformation \<Rightarrow> rectangle \<Rightarrow> real \<times> real" where
  "placed_lower_left t r =
     (let ps = placed_corners t r
      in (Min (set (map fst ps)), Min (set (map snd ps))))"

subsection \<open>The enumerator as a list expression\<close>

text \<open>
  Auxiliary definitions for the proofs: the scenario that one (trim, rotation) pair
  yields when it fits, and the lists the two loops append. They are shown below to be
  what \<open>rotate_loop\<close> and \<open>trim_loop\<close> compute.
\<close>

definition mk_scenario :: "real \<Rightarrow> real \<Rightarrow> real \<Rightarrow> real \<Rightarrow> real \<Rightarrow> bool \<Rightarrow> scenario" where
  "mk_scenario trim card_w card_h usable_w usable_h rot =
     (let w_eff = (if rot then card_h else card_w);
          h_eff = (if rot then card_w else card_h);
          c = \<lfloor>usable_w / w_eff\<rfloor>;
          r = \<lfloor>usable_h / h_eff\<rfloor>
      in \<lparr>trim_mm = trim, rotate = rot, cols = c, rows = r,
          inner_mx = (usable_w - of_int c * w_eff) / 2,
          inner_my = (usable_h - of_int r * h_eff) / 2,
          card_w_eff = w_eff, card_h_eff = h_eff, capacity = c * r\<rparr>)"

definition fits :: "real \<Rightarrow> real \<Rightarrow> real \<Rightarrow> real \<Rightarrow> bool \<Rightarrow> bool" where
  "fits card_w card_h usable_w usable_h rot =
     (1 \<le> \<lfloor>usable_w / (if rot then card_h else card_w)\<rfloor> \<and>
      1 \<le> \<lfloor>usable_h / (if rot then card_w else card_h)\<rfloor>)"

definition grid_scenarios :: "real \<Rightarrow> real \<Rightarrow> real \<Rightarrow> real \<Rightarrow> real \<Rightarrow> bool \<Rightarrow> scenario list" where
  "grid_scenarios trim card_w card_h usable_w usable_h rot =
     (if fits card_w card_h usable_w usable_h rot
      then [mk_scenario trim card_w card_h usable_w usable_h rot] else [])"

definition trim_scenarios :: "real \<Rightarrow> real \<Rightarrow> real \<Rightarrow> real \<Rightarrow> real \<Rightarrow> scenario list" where
  "trim_scenarios orig_w orig_h usable_w usable_h trim =
     (case trimmed_card orig_w orig_h trim of (card_w, card_h) \<Rightarrow>
        if card_w \<le> 0 \<or> card_h \<le> 0 then []
        else grid_scenarios trim card_w card_h usable_w usable_h False @
             grid_scenarios trim card_w card_h usable_w usable_h True)"

text \<open>
  A (trim, rotation) pair is viable when the trimmed card is positive on both axes and
  \<open>compute_grid\<close> on the effective card returns a grid.
\<close>

definition viable :: "real \<Rightarrow> real \<Rightarrow> real \<Rightarrow> real \<Rightarrow> real \<Rightarrow> bool \<Rightarrow> bool" where
  "viable orig_w orig_h usable_w usable_h trim rot =
     (case trimmed_card orig_w orig_h trim of (card_w, card_h) \<Rightarrow>
        0 < card_w \<and> 0 < card_h \<and>
        \<not> isl (compute_grid (if rot then card_h else card_w) (if rot then card_w else card_h)
                 usable_w usable_h))"

subsection \<open>The planning part in double precision\<close>

text \<open>
  The safety check of \<open>main\<close> compares with a tolerance of 0.01 pt, which only rounding can
  use up. For it, the path from the page boxes to the check is modelled a second time with
  every float operation of the source rounded as IEEE 754 binary64 rounds it: to the
  nearest number with a 53-bit significand, ties to the even significand. The exponent is
  not bounded: overflow, underflow to subnormal numbers, infinities and NaN are not part of
  the model. Inputs (page boxes, margins) are taken to be doubles already.
\<close>

definition pow2 :: "int \<Rightarrow> real" where
  "pow2 e = (if 0 \<le> e then 2 ^ nat e else 1 / 2 ^ nat (- e))"

text \<open>The \<open>e\<close> with \<open>2 ^ e \<le> x < 2 ^ (e + 1)\<close>, for \<open>x > 0\<close>.\<close>

definition binary_exponent :: "real \<Rightarrow> int" where
  "binary_exponent x =
     (if 1 \<le> x then bitlen \<lfloor>x\<rfloor> - 1 else - bitlen (\<lceil>1 / x\<rceil> - 1))"

definition round_half_even :: "real \<Rightarrow> int" where
  "round_half_even m =
     (let f = \<lfloor>m\<rfloor>; d = m - of_int f
      in if d < 1 / 2 then f
         else if 1 / 2 < d then f + 1
         else if even f then f else f + 1)"

definition fl :: "real \<Rightarrow> real" where
  "fl x =
     (if x = 0 then 0
      else let u = pow2 (binary_exponent \<bar>x\<bar> - 52)
           in sgn x * of_int (round_half_even (\<bar>x\<bar> / u)) * u)"




text \<open>
  Python's \<open>//\<close> on floats, as the interpreter computes it: the exact \<open>fmod\<close>, the
  rounded quotient of the rounded difference, a correction when the remainder and the
  divisor differ in sign, and the floor snapped to the nearest integer.
\<close>

definition fmod :: "real \<Rightarrow> real \<Rightarrow> real" where
  "fmod vx wx =
     (let q = vx / wx
      in vx - wx * of_int (if 0 \<le> q then \<lfloor>q\<rfloor> else \<lceil>q\<rceil>))"

definition float_floor_div :: "real \<Rightarrow> real \<Rightarrow> error + real" where
  "float_floor_div vx wx =
     (if wx = 0 then Inl ZeroDivisionError
      else
        let md = fmod vx wx;
            div0 = fl (fl (vx - md) / wx);
            dv = (if md \<noteq> 0 \<and> ((wx < 0) \<noteq> (md < 0)) then fl (div0 - 1) else div0)
        in Inr (if dv \<noteq> 0
                then (let floordiv = of_int \<lfloor>dv\<rfloor>
                      in if fl (dv - floordiv) > 0.5 then fl (floordiv + 1) else floordiv)
                else 0))"













section \<open>Properties\<close>

subsection \<open>The enumeration loops\<close>

lemma compute_grid_eq:
  assumes "card_w \<noteq> 0" "card_h \<noteq> 0"
  shows "compute_grid card_w card_h usable_w usable_h =
     (if 1 \<le> \<lfloor>usable_w / card_w\<rfloor> \<and> 1 \<le> \<lfloor>usable_h / card_h\<rfloor>
      then Inr (\<lfloor>usable_w / card_w\<rfloor>, \<lfloor>usable_h / card_h\<rfloor>,
                (usable_w - of_int \<lfloor>usable_w / card_w\<rfloor> * card_w) / 2,
                (usable_h - of_int \<lfloor>usable_h / card_h\<rfloor> * card_h) / 2)
      else Inl GridTooSmall)"
  using assms by (auto simp: compute_grid_def Let_def)

lemma rotate_loop_eq:
  assumes "card_w \<noteq> 0" "card_h \<noteq> 0"
  shows "rotate_loop trim card_w card_h usable_w usable_h rs acc =
     Inr (acc @ concat (map (grid_scenarios trim card_w card_h usable_w usable_h) rs))"
proof (induction rs arbitrary: acc)
  case Nil
  then show ?case by simp
next
  case (Cons rot rs)
  show ?case
  proof (cases rot)
    case True
    then show ?thesis
      using assms Cons.IH
      by (simp add: compute_grid_eq grid_scenarios_def fits_def mk_scenario_def Let_def)
  next
    case False
    then show ?thesis
      using assms Cons.IH
      by (simp add: compute_grid_eq grid_scenarios_def fits_def mk_scenario_def Let_def)
  qed
qed

lemma trim_loop_eq:
  "trim_loop orig_w orig_h usable_w usable_h ts acc =
     Inr (acc @ concat (map (trim_scenarios orig_w orig_h usable_w usable_h) ts))"
proof (induction ts arbitrary: acc)
  case Nil
  then show ?case by simp
next
  case (Cons t ts)
  obtain cw ch where tc: "trimmed_card orig_w orig_h t = (cw, ch)"
    by (cases "trimmed_card orig_w orig_h t")
  show ?case
  proof (cases "cw \<le> 0 \<or> ch \<le> 0")
    case True
    then show ?thesis using tc Cons.IH by (simp add: trim_scenarios_def)
  next
    case False
    then have nz: "cw \<noteq> 0" "ch \<noteq> 0" by auto
    have "rotate_loop t cw ch usable_w usable_h [False, True] acc =
        Inr (acc @ grid_scenarios t cw ch usable_w usable_h False @
               grid_scenarios t cw ch usable_w usable_h True)"
      by (simp only: rotate_loop_eq [OF nz]) simp
    then show ?thesis
      using False tc Cons.IH by (simp add: trim_scenarios_def del: rotate_loop.simps)
  qed
qed

lemma enumerate_scenarios_eq:
  "enumerate_scenarios orig_w orig_h usable_w usable_h =
     Inr (trim_scenarios orig_w orig_h usable_w usable_h 0 @
          trim_scenarios orig_w orig_h usable_w usable_h 2)"
  by (simp add: enumerate_scenarios_def trim_candidates_mm_def trim_loop_eq)

lemma in_grid_scenarios:
  "s \<in> set (grid_scenarios trim cw ch uw uh rot) \<longleftrightarrow>
     fits cw ch uw uh rot \<and> s = mk_scenario trim cw ch uw uh rot"
  by (auto simp: grid_scenarios_def)

lemma in_trim_scenarios:
  "s \<in> set (trim_scenarios ow oh uw uh t) \<longleftrightarrow>
     (\<exists>rot. 0 < fst (trimmed_card ow oh t) \<and> 0 < snd (trimmed_card ow oh t) \<and>
        fits (fst (trimmed_card ow oh t)) (snd (trimmed_card ow oh t)) uw uh rot \<and>
        s = mk_scenario t (fst (trimmed_card ow oh t)) (snd (trimmed_card ow oh t)) uw uh rot)"
  by (cases "trimmed_card ow oh t")
     (auto simp: trim_scenarios_def in_grid_scenarios not_le ex_bool_eq)

lemma in_enumerate_scenarios:
  assumes "enumerate_scenarios ow oh uw uh = Inr scs"
  shows "s \<in> set scs \<longleftrightarrow>
     (\<exists>t rot. (t = 0 \<or> t = 2) \<and>
        0 < fst (trimmed_card ow oh t) \<and> 0 < snd (trimmed_card ow oh t) \<and>
        fits (fst (trimmed_card ow oh t)) (snd (trimmed_card ow oh t)) uw uh rot \<and>
        s = mk_scenario t (fst (trimmed_card ow oh t)) (snd (trimmed_card ow oh t)) uw uh rot)"
proof -
  define P where "P t rot \<longleftrightarrow>
        0 < fst (trimmed_card ow oh t) \<and> 0 < snd (trimmed_card ow oh t) \<and>
        fits (fst (trimmed_card ow oh t)) (snd (trimmed_card ow oh t)) uw uh rot \<and>
        s = mk_scenario t (fst (trimmed_card ow oh t)) (snd (trimmed_card ow oh t)) uw uh rot"
    for t rot
  have scs: "scs = trim_scenarios ow oh uw uh 0 @ trim_scenarios ow oh uw uh 2"
    using assms by (simp add: enumerate_scenarios_eq)
  have "s \<in> set scs \<longleftrightarrow> (\<exists>rot. P 0 rot) \<or> (\<exists>rot. P 2 rot)"
    unfolding scs P_def by (simp add: in_trim_scenarios)
  also have "\<dots> \<longleftrightarrow> (\<exists>t rot. (t = 0 \<or> t = 2) \<and> P t rot)"
    by blast
  finally show ?thesis
    unfolding P_def .
qed

lemma length_grid_scenarios: "length (grid_scenarios t cw ch uw uh rot) \<le> 1"
  by (simp add: grid_scenarios_def)

lemma length_trim_scenarios: "length (trim_scenarios ow oh uw uh t) \<le> 2"
proof (cases "trimmed_card ow oh t")
  case (Pair cw ch)
  show ?thesis
    using length_grid_scenarios [of t cw ch uw uh False]
      length_grid_scenarios [of t cw ch uw uh True] Pair
    by (simp add: trim_scenarios_def)
qed

lemma mk_scenario_sel:
  "trim_mm (mk_scenario t cw ch uw uh rot) = t"
  "rotate (mk_scenario t cw ch uw uh rot) = rot"
  "card_w_eff (mk_scenario t cw ch uw uh rot) = (if rot then ch else cw)"
  "card_h_eff (mk_scenario t cw ch uw uh rot) = (if rot then cw else ch)"
  "cols (mk_scenario t cw ch uw uh rot) = \<lfloor>uw / (if rot then ch else cw)\<rfloor>"
  "rows (mk_scenario t cw ch uw uh rot) = \<lfloor>uh / (if rot then cw else ch)\<rfloor>"
  "capacity (mk_scenario t cw ch uw uh rot) =
     \<lfloor>uw / (if rot then ch else cw)\<rfloor> * \<lfloor>uh / (if rot then cw else ch)\<rfloor>"
  by (simp_all add: mk_scenario_def Let_def)

lemma trim_pairs_grid:
  "map (\<lambda>s. (trim_mm s, rotate s)) (grid_scenarios t cw ch uw uh rot) =
     (if fits cw ch uw uh rot then [(t, rot)] else [])"
  by (simp add: grid_scenarios_def mk_scenario_sel)

lemma trim_pairs_trim:
  "\<exists>ps. map (\<lambda>s. (trim_mm s, rotate s)) (trim_scenarios ow oh uw uh t) = map (Pair t) ps \<and> distinct ps"
proof (cases "trimmed_card ow oh t")
  case (Pair cw ch)
  show ?thesis
  proof (cases "cw \<le> 0 \<or> ch \<le> 0")
    case True
    then show ?thesis using Pair by (simp add: trim_scenarios_def)
  next
    case False
    let ?ps = "(if fits cw ch uw uh False then [False] else []) @
               (if fits cw ch uw uh True then [True] else [])"
    have "map (\<lambda>s. (trim_mm s, rotate s)) (trim_scenarios ow oh uw uh t) = map (Pair t) ?ps"
      using False Pair by (simp add: trim_scenarios_def trim_pairs_grid)
    moreover have "distinct ?ps" by auto
    ultimately show ?thesis by blast
  qed
qed

lemma enumerate_distinct_pairs:
  assumes "enumerate_scenarios ow oh uw uh = Inr scs"
  shows "distinct (map (\<lambda>s. (trim_mm s, rotate s)) scs)"
proof -
  obtain ps0 where p0: "map (\<lambda>s. (trim_mm s, rotate s)) (trim_scenarios ow oh uw uh 0) = map (Pair 0) ps0" "distinct ps0"
    using trim_pairs_trim by blast
  obtain ps2 where p2: "map (\<lambda>s. (trim_mm s, rotate s)) (trim_scenarios ow oh uw uh 2) = map (Pair 2) ps2" "distinct ps2"
    using trim_pairs_trim by blast
  have "scs = trim_scenarios ow oh uw uh 0 @ trim_scenarios ow oh uw uh 2"
    using assms by (simp add: enumerate_scenarios_eq)
  then have "map (\<lambda>s. (trim_mm s, rotate s)) scs = map (Pair 0) ps0 @ map (Pair 2) ps2"
    using p0 p2 by simp
  moreover have "distinct (map (Pair (0::real)) ps0 @ map (Pair 2) ps2)"
    using p0(2) p2(2) by (auto simp: distinct_map inj_on_def)
  ultimately show ?thesis by simp
qed

lemma enumerate_member:
  assumes "enumerate_scenarios ow oh uw uh = Inr scs" and "s \<in> set scs"
  shows "trim_mm s = 0 \<or> trim_mm s = 2"
    and "0 < card_w_eff s" and "0 < card_h_eff s"
    and "(card_w_eff s, card_h_eff s) =
           (if rotate s then prod.swap (trimmed_card ow oh (trim_mm s))
            else trimmed_card ow oh (trim_mm s))"
    and "cols s = \<lfloor>uw / card_w_eff s\<rfloor>" and "rows s = \<lfloor>uh / card_h_eff s\<rfloor>"
    and "1 \<le> cols s" and "1 \<le> rows s" and "capacity s = cols s * rows s"
proof -
  from assms obtain t rot where
    t: "t = 0 \<or> t = 2" and
    pos: "0 < fst (trimmed_card ow oh t)" "0 < snd (trimmed_card ow oh t)" and
    f: "fits (fst (trimmed_card ow oh t)) (snd (trimmed_card ow oh t)) uw uh rot" and
    s: "s = mk_scenario t (fst (trimmed_card ow oh t)) (snd (trimmed_card ow oh t)) uw uh rot"
    by (auto simp: in_enumerate_scenarios)
  show "trim_mm s = 0 \<or> trim_mm s = 2"
    using t by (simp add: s mk_scenario_sel)
  show "0 < card_w_eff s" and "0 < card_h_eff s"
    using pos by (simp_all add: s mk_scenario_sel)
  show "(card_w_eff s, card_h_eff s) =
           (if rotate s then prod.swap (trimmed_card ow oh (trim_mm s))
            else trimmed_card ow oh (trim_mm s))"
    by (simp add: s mk_scenario_sel prod.swap_def)
  show "cols s = \<lfloor>uw / card_w_eff s\<rfloor>" and "rows s = \<lfloor>uh / card_h_eff s\<rfloor>"
    and "capacity s = cols s * rows s"
    by (simp_all add: s mk_scenario_sel)
  show "1 \<le> cols s" and "1 \<le> rows s"
    using f unfolding fits_def by (simp_all add: s mk_scenario_sel)
qed

lemma enumerate_capacity_pos:
  assumes "enumerate_scenarios ow oh uw uh = Inr scs" and "s \<in> set scs"
  shows "1 \<le> capacity s"
proof -
  have "1 * 1 \<le> cols s * rows s"
    using enumerate_member(7,8) [OF assms] by (intro mult_mono) simp_all
  then show ?thesis
    by (simp only: enumerate_member(9) [OF assms] mult_1)
qed

subsection \<open>Enumerator output\<close>

text \<open>
  Claim C5. For every card, usable area and margin, the enumerator returns (it raises
  nothing) a list of at most four scenarios, at most one per (trim, rotation) pair with
  the trim 0 mm or 2 mm. Every scenario in the list has the effective card of its pair,
  \<open>cols = floor (usable_w / card_w_eff)\<close>, \<open>rows = floor (usable_h / card_h_eff)\<close>, both at
  least 1, and \<open>capacity = cols * rows \<ge> 1\<close>: a pair with no column or no row is not in
  the list.
\<close>

theorem enumerator_at_most_four_viable:
  "\<exists>scs. enumerate_scenarios orig_w orig_h usable_w usable_h = Inr scs \<and>
     length scs \<le> 4 \<and>
     distinct (map (\<lambda>s. (trim_mm s, rotate s)) scs) \<and>
     (\<forall>s \<in> set scs.
        (trim_mm s = 0 \<or> trim_mm s = 2) \<and>
        (card_w_eff s, card_h_eff s) =
          (if rotate s then prod.swap (trimmed_card orig_w orig_h (trim_mm s))
           else trimmed_card orig_w orig_h (trim_mm s)) \<and>
        cols s = \<lfloor>usable_w / card_w_eff s\<rfloor> \<and>
        rows s = \<lfloor>usable_h / card_h_eff s\<rfloor> \<and>
        1 \<le> cols s \<and> 1 \<le> rows s \<and>
        capacity s = cols s * rows s \<and> 1 \<le> capacity s)"
proof -
  let ?scs = "trim_scenarios orig_w orig_h usable_w usable_h 0 @
              trim_scenarios orig_w orig_h usable_w usable_h 2"
  have e: "enumerate_scenarios orig_w orig_h usable_w usable_h = Inr ?scs"
    by (rule enumerate_scenarios_eq)
  have len: "length ?scs \<le> 4"
    using length_trim_scenarios [of orig_w orig_h usable_w usable_h 0]
      length_trim_scenarios [of orig_w orig_h usable_w usable_h 2]
    by simp
  have dist: "distinct (map (\<lambda>s. (trim_mm s, rotate s)) ?scs)"
    by (rule enumerate_distinct_pairs [OF e])
  have mem: "\<forall>s \<in> set ?scs.
        (trim_mm s = 0 \<or> trim_mm s = 2) \<and>
        (card_w_eff s, card_h_eff s) =
          (if rotate s then prod.swap (trimmed_card orig_w orig_h (trim_mm s))
           else trimmed_card orig_w orig_h (trim_mm s)) \<and>
        cols s = \<lfloor>usable_w / card_w_eff s\<rfloor> \<and>
        rows s = \<lfloor>usable_h / card_h_eff s\<rfloor> \<and>
        1 \<le> cols s \<and> 1 \<le> rows s \<and>
        capacity s = cols s * rows s \<and> 1 \<le> capacity s"
  proof
    fix s
    assume "s \<in> set ?scs"
    note m = enumerate_member [OF e this] and c = enumerate_capacity_pos [OF e this]
    show "(trim_mm s = 0 \<or> trim_mm s = 2) \<and>
        (card_w_eff s, card_h_eff s) =
          (if rotate s then prod.swap (trimmed_card orig_w orig_h (trim_mm s))
           else trimmed_card orig_w orig_h (trim_mm s)) \<and>
        cols s = \<lfloor>usable_w / card_w_eff s\<rfloor> \<and>
        rows s = \<lfloor>usable_h / card_h_eff s\<rfloor> \<and>
        1 \<le> cols s \<and> 1 \<le> rows s \<and>
        capacity s = cols s * rows s \<and> 1 \<le> capacity s"
      by (intro conjI m(1) m(4) m(5) m(6) m(7) m(8) m(9) c)
  qed
  show ?thesis
    by (rule exI [of _ ?scs]) (intro conjI e len dist mem)
qed

theorem enumerator_at_most_four_viable_witness:
  "\<exists>scs. enumerate_scenarios 255 141 566 813 = Inr scs \<and> length scs = 4 \<and>
     map cols scs = [2, 4, 2, 4] \<and> map rows scs = [5, 3, 6, 3] \<and>
     map capacity scs = [10, 12, 12, 12]"
proof -
  from enumerator_at_most_four_viable [of 255 141 566 813]
  obtain scs where e: "enumerate_scenarios 255 141 566 813 = Inr scs"
    and "\<forall>s \<in> set scs. 1 \<le> cols s \<and> 1 \<le> rows s"
    by blast
  have "map (\<lambda>s. (cols s, rows s, capacity s)) (projr (enumerate_scenarios 255 141 566 813)) =
      [(2, 5, 10), (4, 3, 12), (2, 6, 12), (4, 3, 12)]"
    by code_simp
  with e show ?thesis by (auto simp: map_eq_Cons_conv)
qed

subsection \<open>Scenario selector\<close>

lemma sorted_map_le_last:
  "sorted (map k ys) \<Longrightarrow> y \<in> set ys \<Longrightarrow> k y \<le> k (last ys)"
  by (induction ys) auto

lemma hd_sort_reverse:
  assumes "xs \<noteq> []"
  shows "hd (sort_reverse k xs) \<in> set xs"
    and "x \<in> set xs \<Longrightarrow> k x \<le> k (hd (sort_reverse k xs))"
proof -
  let ?ys = "sort_key k (rev xs)"
  have ne: "?ys \<noteq> []"
    using assms by (metis length_sort length_rev length_0_conv)
  have hd: "hd (sort_reverse k xs) = last ?ys"
    using ne by (simp add: sort_reverse_def hd_rev)
  have "last ?ys \<in> set ?ys"
    using ne by (rule last_in_set)
  then show "hd (sort_reverse k xs) \<in> set xs"
    by (simp add: hd)
  show "k x \<le> k (hd (sort_reverse k xs))" if "x \<in> set xs"
    unfolding hd using that by (intro sorted_map_le_last sorted_sort_key) simp
qed

lemma scenario_key_le:
  "scenario_key s \<le> scenario_key b \<longleftrightarrow>
     capacity s < capacity b \<or>
     capacity s = capacity b \<and>
       (trim_mm b < trim_mm s \<or> trim_mm b = trim_mm s \<and> (rotate b \<longrightarrow> rotate s))"
  by (auto simp: scenario_key_def less_eq_prod_def less_prod_def)

lemma scenario_key_eq:
  "scenario_key s = scenario_key b \<longleftrightarrow>
     capacity s = capacity b \<and> trim_mm s = trim_mm b \<and> rotate s = rotate b"
  by (auto simp: scenario_key_def)

lemma select_best_max:
  assumes "scs \<noteq> []"
  shows "\<exists>b. select_best scs = Inr b \<and> b \<in> set scs \<and>
           (\<forall>s \<in> set scs. scenario_key s \<le> scenario_key b)"
  using assms hd_sort_reverse [where k = scenario_key, OF assms]
  by (simp add: select_best_def)

lemma select_best_unique:
  assumes d: "distinct (map (\<lambda>s. (trim_mm s, rotate s)) scs)"
    and b: "b \<in> set scs" and s: "s \<in> set scs"
    and k: "scenario_key s = scenario_key b"
  shows "s = b"
proof -
  have "inj_on (\<lambda>s. (trim_mm s, rotate s)) (set scs)"
    using d by (simp add: distinct_map)
  moreover have "(trim_mm s, rotate s) = (trim_mm b, rotate b)"
    using k by (simp add: scenario_key_eq)
  ultimately show ?thesis
    using b s by (auto dest: inj_onD)
qed

text \<open>
  Claim C2. On a non-empty scenario list the selector returns one scenario of the list.
  Its capacity is maximal; among the scenarios of that capacity its trim is minimal; among
  those of that capacity and trim, it is rotated only if all of them are (no rotation is
  preferred). When the list is the output of the enumerator, its (trim, rotation) pairs
  are pairwise different, every other scenario has a strictly smaller sort key, and every
  list with the same elements, in whatever order, gives the same choice.
\<close>

theorem selector_picks_maximum:
  assumes "scs \<noteq> []"
  shows "\<exists>b. select_best scs = Inr b \<and> b \<in> set scs \<and>
     (\<forall>s \<in> set scs. capacity s \<le> capacity b) \<and>
     (\<forall>s \<in> set scs. capacity s = capacity b \<longrightarrow> trim_mm b \<le> trim_mm s) \<and>
     (\<forall>s \<in> set scs. capacity s = capacity b \<and> trim_mm s = trim_mm b \<longrightarrow>
         (rotate b \<longrightarrow> rotate s)) \<and>
     (enumerate_scenarios orig_w orig_h usable_w usable_h = Inr scs \<longrightarrow>
        distinct (map (\<lambda>s. (trim_mm s, rotate s)) scs) \<and>
        (\<forall>s \<in> set scs. s \<noteq> b \<longrightarrow> scenario_key s < scenario_key b) \<and>
        (\<forall>scs'. set scs' = set scs \<longrightarrow> select_best scs' = Inr b))"
proof -
  from select_best_max [OF assms] obtain b where
    sel: "select_best scs = Inr b" and mem: "b \<in> set scs" and
    mx: "\<And>s. s \<in> set scs \<Longrightarrow> scenario_key s \<le> scenario_key b"
    by blast
  have cap: "\<forall>s \<in> set scs. capacity s \<le> capacity b"
  proof
    fix s assume "s \<in> set scs"
    from mx [OF this] show "capacity s \<le> capacity b"
      by (auto simp: scenario_key_le)
  qed
  have trim: "\<forall>s \<in> set scs. capacity s = capacity b \<longrightarrow> trim_mm b \<le> trim_mm s"
  proof
    fix s assume "s \<in> set scs"
    from mx [OF this] show "capacity s = capacity b \<longrightarrow> trim_mm b \<le> trim_mm s"
      by (auto simp: scenario_key_le)
  qed
  have rot: "\<forall>s \<in> set scs. capacity s = capacity b \<and> trim_mm s = trim_mm b \<longrightarrow>
         (rotate b \<longrightarrow> rotate s)"
  proof
    fix s assume "s \<in> set scs"
    from mx [OF this]
    show "capacity s = capacity b \<and> trim_mm s = trim_mm b \<longrightarrow> (rotate b \<longrightarrow> rotate s)"
      by (auto simp: scenario_key_le)
  qed
  have det: "distinct (map (\<lambda>s. (trim_mm s, rotate s)) scs) \<and>
        (\<forall>s \<in> set scs. s \<noteq> b \<longrightarrow> scenario_key s < scenario_key b) \<and>
        (\<forall>scs'. set scs' = set scs \<longrightarrow> select_best scs' = Inr b)"
    if e: "enumerate_scenarios orig_w orig_h usable_w usable_h = Inr scs"
  proof (intro conjI ballI allI impI)
    show d: "distinct (map (\<lambda>s. (trim_mm s, rotate s)) scs)"
      by (rule enumerate_distinct_pairs [OF e])
    show "scenario_key s < scenario_key b" if "s \<in> set scs" "s \<noteq> b" for s
    proof -
      have "scenario_key s \<noteq> scenario_key b"
        using select_best_unique [OF d mem that(1)] that(2) by blast
      with mx [OF that(1)] show ?thesis by simp
    qed
    show "select_best scs' = Inr b" if eq: "set scs' = set scs" for scs'
    proof -
      have ne: "scs' \<noteq> []" using eq mem by auto
      from select_best_max [OF ne] obtain b' where
        sel': "select_best scs' = Inr b'" and mem': "b' \<in> set scs'" and
        mx': "\<And>s. s \<in> set scs' \<Longrightarrow> scenario_key s \<le> scenario_key b'"
        by blast
      have "scenario_key b' = scenario_key b"
        using mx [of b'] mx' [of b] mem mem' eq by (simp add: order_antisym)
      then have "b' = b"
        using select_best_unique [OF d mem, of b'] mem' eq by simp
      with sel' show ?thesis by simp
    qed
  qed
  show ?thesis
    using sel mem cap trim rot det by blast
qed

theorem selector_picks_maximum_witness:
  "\<exists>scs b. enumerate_scenarios 255 141 566 813 = Inr scs \<and> scs \<noteq> [] \<and>
     select_best scs = Inr b \<and> b \<in> set scs \<and>
     map capacity scs = [10, 12, 12, 12] \<and>
     capacity b = 12 \<and> trim_mm b = 0 \<and> rotate b"
proof -
  obtain scs where e: "enumerate_scenarios 255 141 566 813 = Inr scs"
    using enumerate_scenarios_eq by blast
  have v: "map (\<lambda>s. (trim_mm s, rotate s, capacity s)) (projr (enumerate_scenarios 255 141 566 813)) =
      [(0, False, 10), (0, True, 12), (2, False, 12), (2, True, 12)]"
    by code_simp
  have m: "map (\<lambda>s. (trim_mm s, rotate s, capacity s)) scs =
      [(0, False, 10), (0, True, 12), (2, False, 12), (2, True, 12)]"
    using v e by simp
  then have ne: "scs \<noteq> []" by auto
  from selector_picks_maximum [OF ne, of 255 141 566 813] e obtain b where
    sel: "select_best scs = Inr b" and mem: "b \<in> set scs" and
    cap: "\<forall>s \<in> set scs. capacity s \<le> capacity b" and
    trim: "\<forall>s \<in> set scs. capacity s = capacity b \<longrightarrow> trim_mm b \<le> trim_mm s"
    by blast
  from m obtain s0 s1 s2 s3 where scs: "scs = [s0, s1, s2, s3]"
    and s: "trim_mm s0 = 0" "capacity s0 = 10" "trim_mm s1 = 0" "rotate s1" "capacity s1 = 12"
       "trim_mm s2 = 2" "capacity s2 = 12" "trim_mm s3 = 2" "capacity s3 = 12"
    by (auto simp: map_eq_Cons_conv)
  have "capacity b = 12 \<and> trim_mm b = 0 \<and> rotate b"
    using mem cap trim unfolding scs using s by auto
  with e ne sel mem m show ?thesis
    by (intro exI [of _ scs] exI [of _ b]) (simp add: scs s)
qed

subsection \<open>Trim candidates\<close>

lemma trimmed_card_simps:
  "0 < t \<Longrightarrow> trimmed_card ow oh t = (ow - 2 * (t * MM_TO_PT), oh - 2 * (t * MM_TO_PT))"
  "t \<le> 0 \<Longrightarrow> trimmed_card ow oh t = (ow, oh)"
  by (simp_all add: trimmed_card_def Let_def)

lemma trim_loop_skip:
  assumes "fst (trimmed_card ow oh t) \<le> 0 \<or> snd (trimmed_card ow oh t) \<le> 0"
  shows "trim_loop ow oh uw uh (t # rest) acc = trim_loop ow oh uw uh rest acc"
  using assms by (cases "trimmed_card ow oh t") simp

lemma enumerate_trimmed_pos:
  assumes "enumerate_scenarios ow oh uw uh = Inr scs" and "s \<in> set scs"
  shows "0 < fst (trimmed_card ow oh (trim_mm s))" and "0 < snd (trimmed_card ow oh (trim_mm s))"
  using enumerate_member(2,3,4) [OF assms]
  by (cases "trimmed_card ow oh (trim_mm s)"; cases "rotate s"; simp)+

text \<open>
  Claim C6. The card of a trim candidate is the original card with twice the trim (in
  points) taken from the width and from the height when the trim is positive, and the
  original card when the trim is 0. When either axis of the trimmed card is not positive,
  the trim loop goes on to the next candidate with the scenario list unchanged: neither
  rotation case is generated, and no enumerated scenario has that trim.
\<close>

theorem trim_candidate_dimension:
  "(0 < t \<longrightarrow> trimmed_card orig_w orig_h t =
       (orig_w - 2 * (t * MM_TO_PT), orig_h - 2 * (t * MM_TO_PT))) \<and>
   (t = 0 \<longrightarrow> trimmed_card orig_w orig_h t = (orig_w, orig_h)) \<and>
   (fst (trimmed_card orig_w orig_h t) \<le> 0 \<or> snd (trimmed_card orig_w orig_h t) \<le> 0 \<longrightarrow>
      trim_loop orig_w orig_h usable_w usable_h (t # rest) acc =
        trim_loop orig_w orig_h usable_w usable_h rest acc \<and>
      (\<exists>scs. enumerate_scenarios orig_w orig_h usable_w usable_h = Inr scs \<and>
         (\<forall>s \<in> set scs. trim_mm s \<noteq> t)))"
proof (intro conjI impI)
  show "trimmed_card orig_w orig_h t =
       (orig_w - 2 * (t * MM_TO_PT), orig_h - 2 * (t * MM_TO_PT))" if "0 < t"
    using that by (rule trimmed_card_simps)
  show "trimmed_card orig_w orig_h t = (orig_w, orig_h)" if "t = 0"
    using that by (simp add: trimmed_card_simps)
  assume np: "fst (trimmed_card orig_w orig_h t) \<le> 0 \<or> snd (trimmed_card orig_w orig_h t) \<le> 0"
  show "trim_loop orig_w orig_h usable_w usable_h (t # rest) acc =
        trim_loop orig_w orig_h usable_w usable_h rest acc"
    using np by (rule trim_loop_skip)
  obtain scs where e: "enumerate_scenarios orig_w orig_h usable_w usable_h = Inr scs"
    using enumerate_scenarios_eq by blast
  have "trim_mm s \<noteq> t" if "s \<in> set scs" for s
    using enumerate_trimmed_pos [OF e that] np by auto
  with e show "\<exists>scs. enumerate_scenarios orig_w orig_h usable_w usable_h = Inr scs \<and>
         (\<forall>s \<in> set scs. trim_mm s \<noteq> t)"
    by blast
qed

theorem trim_candidate_dimension_witness:
  "trimmed_card 10 100 2 = (10 - 2 * (2 * MM_TO_PT), 100 - 2 * (2 * MM_TO_PT)) \<and>
   fst (trimmed_card 10 100 2) \<le> 0 \<and>
   trim_loop 10 100 566 813 [2] [] = Inr [] \<and>
   trimmed_card 10 100 0 = (10, 100) \<and>
   (\<exists>scs. enumerate_scenarios 10 100 566 813 = Inr scs \<and> map trim_mm scs = [0, 0])"
proof -
  have np: "fst (trimmed_card 10 100 2) \<le> 0"
    by (simp add: trimmed_card_def MM_TO_PT_def)
  have v: "map trim_mm (projr (enumerate_scenarios 10 100 566 813)) = [0, 0]"
    by code_simp
  obtain scs where e: "enumerate_scenarios 10 100 566 813 = Inr scs"
    using enumerate_scenarios_eq by blast
  show ?thesis
    using trim_candidate_dimension [of 2 10 100 566 813 "[]" "[]"]
      trim_candidate_dimension [of 0 10 100 566 813 "[]" "[]"] np v e
    by simp
qed

subsection \<open>Cropping a page\<close>

lemma crop_noop: "t \<le> 0 \<Longrightarrow> crop_page_all_sides pg t = (pg, None)"
  by (simp add: crop_page_all_sides_def)

lemma crop_cases:
  assumes "0 < t"
  shows "crop_page_all_sides pg t =
     (if width (mediabox pg) - 2 * (t * MM_TO_PT) \<le> 0 \<or>
         height (mediabox pg) - 2 * (t * MM_TO_PT) \<le> 0
      then (pg, Some OverTrimmed)
      else (pg\<lparr>mediabox :=
                \<lparr>lower_left = (fst (lower_left (mediabox pg)) + t * MM_TO_PT,
                               snd (lower_left (mediabox pg)) + t * MM_TO_PT),
                 upper_right = (fst (upper_right (mediabox pg)) - t * MM_TO_PT,
                                snd (upper_right (mediabox pg)) - t * MM_TO_PT)\<rparr>\<rparr>, None))"
  using assms
  by (cases "lower_left (mediabox pg)"; cases "upper_right (mediabox pg)")
     (auto simp: crop_page_all_sides_def Let_def width_def height_def)

lemma crop_width_height:
  assumes "crop_page_all_sides pg t = (pg', None)" and "0 < t"
  shows "width (mediabox pg') = width (mediabox pg) - 2 * (t * MM_TO_PT)"
    and "height (mediabox pg') = height (mediabox pg) - 2 * (t * MM_TO_PT)"
    and "0 < width (mediabox pg')" and "0 < height (mediabox pg')"
  using assms by (auto simp: crop_cases width_def height_def algebra_simps split: if_splits)

lemma crop_error:
  assumes "crop_page_all_sides pg t = (pg', Some e)"
  shows "e = OverTrimmed" and "pg' = pg" and "0 < t"
    and "width (mediabox pg) - 2 * (t * MM_TO_PT) \<le> 0 \<or>
         height (mediabox pg) - 2 * (t * MM_TO_PT) \<le> 0"
proof -
  have t: "0 < t"
    using assms by (cases "0 < t") (simp_all add: crop_noop)
  show "0 < t" by (rule t)
  show "e = OverTrimmed" and "pg' = pg"
    and "width (mediabox pg) - 2 * (t * MM_TO_PT) \<le> 0 \<or>
         height (mediabox pg) - 2 * (t * MM_TO_PT) \<le> 0"
    using assms by (auto simp: crop_cases [OF t] split: if_splits)
qed

text \<open>
  Claim C10. For a trim of 0 or less the crop returns the page as it was and raises
  nothing. For a positive trim that leaves the box without positive width or height it
  raises the over-trim error and the page is as it was. Whenever it raises, the error is
  the over-trim error and the page is unchanged. Whenever the page has changed, nothing
  was raised and the new box has positive width and height; after a successful crop by a
  positive trim each axis has lost twice the trim.
\<close>

theorem crop_atomic:
  "(t \<le> 0 \<longrightarrow> crop_page_all_sides pg t = (pg, None)) \<and>
   (0 < t \<and> (width (mediabox pg) - 2 * (t * MM_TO_PT) \<le> 0 \<or>
             height (mediabox pg) - 2 * (t * MM_TO_PT) \<le> 0) \<longrightarrow>
      crop_page_all_sides pg t = (pg, Some OverTrimmed)) \<and>
   (\<forall>e. snd (crop_page_all_sides pg t) = Some e \<longrightarrow>
      e = OverTrimmed \<and> fst (crop_page_all_sides pg t) = pg) \<and>
   (fst (crop_page_all_sides pg t) \<noteq> pg \<longrightarrow>
      snd (crop_page_all_sides pg t) = None \<and>
      0 < width (mediabox (fst (crop_page_all_sides pg t))) \<and>
      0 < height (mediabox (fst (crop_page_all_sides pg t)))) \<and>
   (0 < t \<and> snd (crop_page_all_sides pg t) = None \<longrightarrow>
      width (mediabox (fst (crop_page_all_sides pg t))) =
        width (mediabox pg) - 2 * (t * MM_TO_PT) \<and>
      height (mediabox (fst (crop_page_all_sides pg t))) =
        height (mediabox pg) - 2 * (t * MM_TO_PT) \<and>
      0 < width (mediabox (fst (crop_page_all_sides pg t))) \<and>
      0 < height (mediabox (fst (crop_page_all_sides pg t))))"
proof (intro conjI impI allI)
  obtain pg' r where c: "crop_page_all_sides pg t = (pg', r)"
    by (cases "crop_page_all_sides pg t")
  show "crop_page_all_sides pg t = (pg, None)" if "t \<le> 0"
    using that by (rule crop_noop)
  show "crop_page_all_sides pg t = (pg, Some OverTrimmed)"
    if "0 < t \<and> (width (mediabox pg) - 2 * (t * MM_TO_PT) \<le> 0 \<or>
             height (mediabox pg) - 2 * (t * MM_TO_PT) \<le> 0)"
    using that by (simp add: crop_cases)
  show "e = OverTrimmed" and "fst (crop_page_all_sides pg t) = pg"
    if "snd (crop_page_all_sides pg t) = Some e" for e
    using that crop_error(1,2) [of pg t pg' e] c by simp_all
  have moved: "r = None \<and> 0 < t" if "pg' \<noteq> pg"
  proof (cases r)
    case None
    then show ?thesis using that c by (cases "0 < t") (simp_all add: crop_noop)
  next
    case (Some e)
    then show ?thesis using that c crop_error(2) [of pg t pg' e] by simp
  qed
  show "snd (crop_page_all_sides pg t) = None"
    and "0 < width (mediabox (fst (crop_page_all_sides pg t)))"
    and "0 < height (mediabox (fst (crop_page_all_sides pg t)))"
    if "fst (crop_page_all_sides pg t) \<noteq> pg"
    using that moved c crop_width_height(3,4) [of pg t pg'] by simp_all
  show "width (mediabox (fst (crop_page_all_sides pg t))) =
        width (mediabox pg) - 2 * (t * MM_TO_PT)"
    and "height (mediabox (fst (crop_page_all_sides pg t))) =
        height (mediabox pg) - 2 * (t * MM_TO_PT)"
    and "0 < width (mediabox (fst (crop_page_all_sides pg t)))"
    and "0 < height (mediabox (fst (crop_page_all_sides pg t)))"
    if "0 < t \<and> snd (crop_page_all_sides pg t) = None"
    using that c crop_width_height [of pg t pg'] by simp_all
qed

theorem crop_atomic_witness:
  "crop_page_all_sides \<lparr>mediabox = \<lparr>lower_left = (0, 0), upper_right = (10, 10)\<rparr>\<rparr> (- 1) =
     (\<lparr>mediabox = \<lparr>lower_left = (0, 0), upper_right = (10, 10)\<rparr>\<rparr>, None) \<and>
   crop_page_all_sides \<lparr>mediabox = \<lparr>lower_left = (0, 0), upper_right = (10, 10)\<rparr>\<rparr> 2 =
     (\<lparr>mediabox = \<lparr>lower_left = (0, 0), upper_right = (10, 10)\<rparr>\<rparr>, Some OverTrimmed) \<and>
   crop_page_all_sides \<lparr>mediabox = \<lparr>lower_left = (0, 0), upper_right = (254, 127)\<rparr>\<rparr> 2 =
     (\<lparr>mediabox = \<lparr>lower_left = (720 / 127, 720 / 127),
                    upper_right = (254 - 720 / 127, 127 - 720 / 127)\<rparr>\<rparr>, None) \<and>
   0 < width (mediabox (fst (crop_page_all_sides
         \<lparr>mediabox = \<lparr>lower_left = (0, 0), upper_right = (254, 127)\<rparr>\<rparr> 2)))"
proof -
  let ?small = "\<lparr>mediabox = \<lparr>lower_left = (0, 0), upper_right = (10, 10)\<rparr>\<rparr>"
  let ?large = "\<lparr>mediabox = \<lparr>lower_left = (0, 0), upper_right = (254, 127)\<rparr>\<rparr>"
  have neg: "(- 1 :: real) \<le> 0" and pos: "(0 :: real) < 2"
    by simp_all
  have over: "width (mediabox ?small) - 2 * (2 * MM_TO_PT) \<le> 0"
    by (simp add: width_def MM_TO_PT_def)
  have moved: "crop_page_all_sides ?large 2 =
     (\<lparr>mediabox = \<lparr>lower_left = (720 / 127, 720 / 127),
                    upper_right = (254 - 720 / 127, 127 - 720 / 127)\<rparr>\<rparr>, None)"
    by (simp add: crop_page_all_sides_def MM_TO_PT_def Let_def)
  have ne: "fst (crop_page_all_sides ?large 2) \<noteq> ?large"
    unfolding moved by simp
  have 1: "crop_page_all_sides ?small (- 1) = (?small, None)"
    using crop_atomic [of "- 1" ?small] neg by blast
  have 2: "crop_page_all_sides ?small 2 = (?small, Some OverTrimmed)"
    using crop_atomic [of 2 ?small] pos over by blast
  have 3: "0 < width (mediabox (fst (crop_page_all_sides ?large 2)))"
    using crop_atomic [of 2 ?large] ne by blast
  show ?thesis
    by (intro conjI 1 2 3 moved)
qed

subsection \<open>Failures of the planning part\<close>

lemma apply_trim_error:
  "apply_trim b front back = Inl e \<Longrightarrow> e = OverTrimmed"
  by (auto simp: apply_trim_def split: if_splits prod.splits option.splits dest: crop_error(1))

lemma compose_error:
  "compose b front back sw sh mx my = Inl e \<Longrightarrow> e = InvariantViolation"
  by (auto simp: compose_def Let_def split: if_splits)

lemma select_best_error:
  "select_best scs = Inl e \<longleftrightarrow> scs = [] \<and> e = NoViableScenario"
  by (auto simp: select_best_def)

lemma main_plan_unfold:
  assumes "2 \<le> length pages" and "get_sheet_size (paper a) = Inr (sh_w, sh_h)"
    and "min_margins_mm a = (mx_mm, my_mm)"
  shows "main_plan a pages =
     (if sh_w - 2 * (mx_mm * MM_TO_PT) \<le> 0 \<or> sh_h - 2 * (my_mm * MM_TO_PT) \<le> 0
      then Inl MarginTooLarge
      else
        (case enumerate_scenarios (width (mediabox (pages ! 0))) (height (mediabox (pages ! 0)))
                (sh_w - 2 * (mx_mm * MM_TO_PT)) (sh_h - 2 * (my_mm * MM_TO_PT)) of
           Inl e \<Rightarrow> Inl e
         | Inr scenarios \<Rightarrow>
            (case select_best scenarios of
              Inl e \<Rightarrow> Inl e
            | Inr b \<Rightarrow>
               (case apply_trim b (pages ! 0) (pages ! 1) of
                  Inl e \<Rightarrow> Inl e
                | Inr (front', back') \<Rightarrow>
                    compose b front' back' sh_w sh_h (mx_mm * MM_TO_PT) (my_mm * MM_TO_PT)))))"
  using assms by (simp add: main_plan_def Let_def del: One_nat_def)

lemma viable_iff:
  "viable ow oh uw uh t rot \<longleftrightarrow>
     0 < fst (trimmed_card ow oh t) \<and> 0 < snd (trimmed_card ow oh t) \<and>
     fits (fst (trimmed_card ow oh t)) (snd (trimmed_card ow oh t)) uw uh rot"
  by (cases "trimmed_card ow oh t")
     (auto simp: viable_def fits_def compute_grid_eq split: if_splits)

lemma enumerate_empty_iff:
  assumes "enumerate_scenarios ow oh uw uh = Inr scs"
  shows "scs = [] \<longleftrightarrow> (\<forall>t \<in> set trim_candidates_mm. \<forall>rot. \<not> viable ow oh uw uh t rot)"
proof -
  have "scs = [] \<longleftrightarrow> (\<forall>s. s \<notin> set scs)"
    by (cases scs) auto
  also have "\<dots> \<longleftrightarrow> (\<forall>t rot. (t = 0 \<or> t = 2) \<longrightarrow> \<not> viable ow oh uw uh t rot)"
    unfolding in_enumerate_scenarios [OF assms] viable_iff by blast
  also have "\<dots> \<longleftrightarrow> (\<forall>t \<in> set trim_candidates_mm. \<forall>rot. \<not> viable ow oh uw uh t rot)"
    by (simp add: trim_candidates_mm_def) blast
  finally show ?thesis .
qed

lemma get_sheet_size_A4: "get_sheet_size ''A4'' = Inr (210 * MM_TO_PT, 297 * MM_TO_PT)"
  by (simp add: get_sheet_size_def upper_def upper_char_def PAPER_SIZES_MM_def mm_to_points_def)

text \<open>
  Claim C7. With two pages read and the sheet format resolved, the program fails with
  \<open>MarginTooLarge\<close> exactly when the sheet minus twice the minimum margin is not positive
  on some axis; the condition mentions neither the card nor a scenario. It fails with
  \<open>NoViableScenario\<close> exactly when the usable area is positive on both axes and none of
  the four (trim, rotation) pairs is viable.
\<close>

theorem margin_too_large_iff:
  assumes "2 \<le> length pages" and "get_sheet_size (paper a) = Inr (sh_w, sh_h)"
    and "min_margins_mm a = (mx_mm, my_mm)"
  shows "(main_plan a pages = Inl MarginTooLarge \<longleftrightarrow>
            sh_w - 2 * (mx_mm * MM_TO_PT) \<le> 0 \<or> sh_h - 2 * (my_mm * MM_TO_PT) \<le> 0) \<and>
         (main_plan a pages = Inl NoViableScenario \<longleftrightarrow>
            0 < sh_w - 2 * (mx_mm * MM_TO_PT) \<and> 0 < sh_h - 2 * (my_mm * MM_TO_PT) \<and>
            (\<forall>t \<in> set trim_candidates_mm. \<forall>rot.
               \<not> viable (width (mediabox (pages ! 0))) (height (mediabox (pages ! 0)))
                   (sh_w - 2 * (mx_mm * MM_TO_PT)) (sh_h - 2 * (my_mm * MM_TO_PT)) t rot))"
proof -
  let ?uw = "sh_w - 2 * (mx_mm * MM_TO_PT)" and ?uh = "sh_h - 2 * (my_mm * MM_TO_PT)"
  let ?ow = "width (mediabox (pages ! 0))" and ?oh = "height (mediabox (pages ! 0))"
  obtain scs where e: "enumerate_scenarios ?ow ?oh ?uw ?uh = Inr scs"
    using enumerate_scenarios_eq by blast
  note u = main_plan_unfold [OF assms]
  show ?thesis
  proof (cases "?uw \<le> 0 \<or> ?uh \<le> 0")
    case True
    then show ?thesis using u by auto
  next
    case False
    then have pos: "0 < ?uw" "0 < ?uh" by auto
    have m: "main_plan a pages =
       (case select_best scs of
              Inl e \<Rightarrow> Inl e
            | Inr b \<Rightarrow>
               (case apply_trim b (pages ! 0) (pages ! 1) of
                  Inl e \<Rightarrow> Inl e
                | Inr (front', back') \<Rightarrow>
                    compose b front' back' sh_w sh_h (mx_mm * MM_TO_PT) (my_mm * MM_TO_PT)))"
      using u False e by simp
    have no_mtl: "main_plan a pages \<noteq> Inl MarginTooLarge"
      unfolding m
      by (auto split: sum.splits dest: apply_trim_error compose_error simp: select_best_error)
    have nvs: "main_plan a pages = Inl NoViableScenario \<longleftrightarrow> scs = []"
      unfolding m
      by (auto split: sum.splits dest: apply_trim_error compose_error
            simp: select_best_error select_best_def)
    show ?thesis
      using False pos no_mtl nvs enumerate_empty_iff [OF e] by simp
  qed
qed

theorem margin_too_large_iff_witness:
  "main_plan \<lparr>paper = ''A4'', margin_mm = Some 105, margin_x_mm = 5, margin_y_mm = 5\<rparr>
     [\<lparr>mediabox = \<lparr>lower_left = (0, 0), upper_right = (255, 141)\<rparr>\<rparr>,
      \<lparr>mediabox = \<lparr>lower_left = (0, 0), upper_right = (255, 141)\<rparr>\<rparr>] = Inl MarginTooLarge \<and>
   main_plan \<lparr>paper = ''A4'', margin_mm = None, margin_x_mm = 5, margin_y_mm = 5\<rparr>
     [\<lparr>mediabox = \<lparr>lower_left = (0, 0), upper_right = (900, 900)\<rparr>\<rparr>,
      \<lparr>mediabox = \<lparr>lower_left = (0, 0), upper_right = (900, 900)\<rparr>\<rparr>] = Inl NoViableScenario \<and>
   \<not> viable 900 900 (210 * MM_TO_PT - 2 * (5 * MM_TO_PT)) (297 * MM_TO_PT - 2 * (5 * MM_TO_PT))
       2 True"
proof -
  let ?a1 = "\<lparr>paper = ''A4'', margin_mm = Some 105, margin_x_mm = 5, margin_y_mm = 5\<rparr>"
  let ?a2 = "\<lparr>paper = ''A4'', margin_mm = None, margin_x_mm = 5, margin_y_mm = 5\<rparr>"
  let ?p1 = "[\<lparr>mediabox = \<lparr>lower_left = (0, 0), upper_right = (255, 141)\<rparr>\<rparr>,
      \<lparr>mediabox = \<lparr>lower_left = (0, 0), upper_right = (255, 141)\<rparr>\<rparr>]"
  let ?p2 = "[\<lparr>mediabox = \<lparr>lower_left = (0, 0), upper_right = (900, 900)\<rparr>\<rparr>,
      \<lparr>mediabox = \<lparr>lower_left = (0, 0), upper_right = (900, 900)\<rparr>\<rparr>]"
  have l1: "2 \<le> length ?p1" and l2: "2 \<le> length ?p2"
    by simp_all
  have g1: "get_sheet_size (paper ?a1) = Inr (210 * MM_TO_PT, 297 * MM_TO_PT)"
    and g2: "get_sheet_size (paper ?a2) = Inr (210 * MM_TO_PT, 297 * MM_TO_PT)"
    by (simp_all add: get_sheet_size_A4)
  have m1: "min_margins_mm ?a1 = (105, 105)" and m2: "min_margins_mm ?a2 = (5, 5)"
    by (simp_all add: min_margins_mm_def)
  have c1: "210 * MM_TO_PT - 2 * (105 * MM_TO_PT) \<le> 0"
    by simp
  have 1: "main_plan ?a1 ?p1 = Inl MarginTooLarge"
    using margin_too_large_iff [OF l1 g1 m1] c1 by blast
  have 2: "main_plan ?a2 ?p2 = Inl NoViableScenario"
    by code_simp
  have w: "width (mediabox (?p2 ! 0)) = 900" and h: "height (mediabox (?p2 ! 0)) = 900"
    by (simp_all add: width_def height_def)
  have "\<forall>t \<in> set trim_candidates_mm. \<forall>rot.
      \<not> viable 900 900 (210 * MM_TO_PT - 2 * (5 * MM_TO_PT))
          (297 * MM_TO_PT - 2 * (5 * MM_TO_PT)) t rot"
    using margin_too_large_iff [OF l2 g2 m2] 2 unfolding w h by blast
  then have 3: "\<not> viable 900 900 (210 * MM_TO_PT - 2 * (5 * MM_TO_PT))
       (297 * MM_TO_PT - 2 * (5 * MM_TO_PT)) 2 True"
    by (simp add: trim_candidates_mm_def)
  show ?thesis
    by (intro conjI 1 2 3)
qed

subsection \<open>The outcomes of the planning part\<close>

lemma apply_trim_dims:
  assumes "apply_trim b front back = Inr (front', back')"
  shows "(width (mediabox front'), height (mediabox front')) =
           trimmed_card (width (mediabox front)) (height (mediabox front)) (trim_mm b)"
proof (cases "0 < trim_mm b")
  case True
  from assms True obtain r where c: "crop_page_all_sides front (trim_mm b) = (front', r)"
    by (auto simp: apply_trim_def split: prod.splits option.splits)
  from assms True c have "r = None"
    by (auto simp: apply_trim_def split: prod.splits option.splits)
  with c have "crop_page_all_sides front (trim_mm b) = (front', None)" by simp
  from crop_width_height(1,2) [OF this True] True show ?thesis
    by (simp add: trimmed_card_simps)
next
  case False
  then show ?thesis
    using assms by (simp add: apply_trim_def trimmed_card_simps)
qed

lemma enumerate_grid_fits:
  assumes "enumerate_scenarios ow oh uw uh = Inr scs" and "s \<in> set scs"
  shows "of_int (cols s) * card_w_eff s \<le> uw" and "of_int (rows s) * card_h_eff s \<le> uh"
proof -
  note m = enumerate_member [OF assms]
  have "of_int \<lfloor>uw / card_w_eff s\<rfloor> * card_w_eff s \<le> uw / card_w_eff s * card_w_eff s"
    using m(2) by (intro mult_right_mono of_int_floor_le) simp
  also have "\<dots> = uw"
    using m(2) by simp
  finally show "of_int (cols s) * card_w_eff s \<le> uw"
    by (simp only: m(5))
  have "of_int \<lfloor>uh / card_h_eff s\<rfloor> * card_h_eff s \<le> uh / card_h_eff s * card_h_eff s"
    using m(3) by (intro mult_right_mono of_int_floor_le) simp
  also have "\<dots> = uh"
    using m(3) by simp
  finally show "of_int (rows s) * card_h_eff s \<le> uh"
    by (simp only: m(6))
qed

lemma select_best_member:
  "select_best scs = Inr b \<Longrightarrow> b \<in> set scs"
  using select_best_max [of scs] by (cases "scs = []") (auto simp: select_best_def)

lemma compose_Inr:
  assumes "compose b front back sw sh mx_min my_min = Inr p"
  shows "best p = b" and "front_page p = front" and "back_page p = back"
    and "sheet_w p = sw" and "sheet_h p = sh"
    and "final_card_w p = width (mediabox front)"
    and "final_card_h p = height (mediabox front)"
    and "plan_card_w_eff p = (if rotate b then final_card_h p else final_card_w p)"
    and "plan_card_h_eff p = (if rotate b then final_card_w p else final_card_h p)"
    and "margin_x p = (sw - of_int (cols b) * plan_card_w_eff p) / 2"
    and "margin_y p = (sh - of_int (rows b) * plan_card_h_eff p) / 2"
    and "mx_min - 0.01 \<le> margin_x p" and "my_min - 0.01 \<le> margin_y p"
  using assms by (auto simp: compose_def Let_def split: if_splits)

lemma compose_fits:
  assumes "of_int (cols b) * (if rotate b then height (mediabox front) else width (mediabox front))
             \<le> sw - 2 * mx_min"
    and "of_int (rows b) * (if rotate b then width (mediabox front) else height (mediabox front))
             \<le> sh - 2 * my_min"
  shows "\<exists>p. compose b front back sw sh mx_min my_min = Inr p"
  using assms by (auto simp: compose_def Let_def)

text \<open>The planning part of main, factored: what can come out of it.\<close>

lemma main_plan_cases:
  obtains (few) "length pages < 2" "main_plan a pages = Inl TooFewPages"
  | (format) "main_plan a pages = Inl UnknownFormat" "get_sheet_size (paper a) = Inl UnknownFormat"
  | (margin) sw sh where "get_sheet_size (paper a) = Inr (sw, sh)"
      "main_plan a pages = Inl MarginTooLarge"
  | (none) "main_plan a pages = Inl NoViableScenario"
  | (trim) "main_plan a pages = Inl OverTrimmed"
  | (plan) sw sh scs b front' back' p where
      "2 \<le> length pages" "get_sheet_size (paper a) = Inr (sw, sh)"
      "0 < sw - 2 * (fst (min_margins_mm a) * MM_TO_PT)"
      "0 < sh - 2 * (snd (min_margins_mm a) * MM_TO_PT)"
      "enumerate_scenarios (width (mediabox (pages ! 0))) (height (mediabox (pages ! 0)))
         (sw - 2 * (fst (min_margins_mm a) * MM_TO_PT))
         (sh - 2 * (snd (min_margins_mm a) * MM_TO_PT)) = Inr scs"
      "select_best scs = Inr b"
      "apply_trim b (pages ! 0) (pages ! 1) = Inr (front', back')"
      "compose b front' back' sw sh (fst (min_margins_mm a) * MM_TO_PT)
         (snd (min_margins_mm a) * MM_TO_PT) = Inr p"
      "main_plan a pages = Inr p"
proof (cases "length pages < 2")
  case True
  then have "main_plan a pages = Inl TooFewPages"
    by (simp add: main_plan_def split: prod.splits)
  with True show ?thesis by (rule few)
next
  case False
  then have len: "2 \<le> length pages" by simp
  obtain mx_mm my_mm where mm: "min_margins_mm a = (mx_mm, my_mm)"
    by (cases "min_margins_mm a")
  show ?thesis
  proof (cases "get_sheet_size (paper a)")
    case (Inl e)
    then have "e = UnknownFormat"
      by (auto simp: get_sheet_size_def Let_def split: option.splits)
    moreover have "main_plan a pages = Inl e"
      using Inl False by (simp add: main_plan_def Let_def split: prod.splits)
    ultimately show ?thesis using Inl by (intro format) simp_all
  next
    case (Inr sz)
    then obtain sw sh where g: "get_sheet_size (paper a) = Inr (sw, sh)"
      by (cases sz) simp
    let ?uw = "sw - 2 * (mx_mm * MM_TO_PT)" and ?uh = "sh - 2 * (my_mm * MM_TO_PT)"
    let ?ow = "width (mediabox (pages ! 0))" and ?oh = "height (mediabox (pages ! 0))"
    note u = main_plan_unfold [OF len g mm]
    show ?thesis
    proof (cases "?uw \<le> 0 \<or> ?uh \<le> 0")
      case True
      then have "main_plan a pages = Inl MarginTooLarge" using u by simp
      with g show ?thesis by (rule margin)
    next
      case nm: False
      obtain scs where e: "enumerate_scenarios ?ow ?oh ?uw ?uh = Inr scs"
        using enumerate_scenarios_eq by blast
      show ?thesis
      proof (cases "select_best scs")
        case (Inl err)
        have "err = NoViableScenario"
          using Inl by (simp add: select_best_error)
        moreover have "main_plan a pages = Inl err"
          using u nm e Inl by simp
        ultimately have "main_plan a pages = Inl NoViableScenario"
          by simp
        then show ?thesis by (rule none)
      next
        case sb: (Inr b)
        show ?thesis
        proof (cases "apply_trim b (pages ! 0) (pages ! 1)")
          case (Inl err)
          then have "main_plan a pages = Inl OverTrimmed"
            using u nm e sb apply_trim_error [OF Inl] by simp
          then show ?thesis by (rule trim)
        next
          case (Inr fb)
          then obtain front' back' where
            at: "apply_trim b (pages ! 0) (pages ! 1) = Inr (front', back')"
            by (cases fb) simp
          have m: "main_plan a pages =
              compose b front' back' sw sh (mx_mm * MM_TO_PT) (my_mm * MM_TO_PT)"
            using u nm e sb at by simp
          have bm: "b \<in> set scs" using sb by (rule select_best_member)
          note d = apply_trim_dims [OF at]
          note em = enumerate_member(4) [OF e bm]
          note gf = enumerate_grid_fits [OF e bm]
          have w: "(if rotate b then height (mediabox front') else width (mediabox front'))
                     = card_w_eff b"
            and h: "(if rotate b then width (mediabox front') else height (mediabox front'))
                     = card_h_eff b"
            using em unfolding d [symmetric] by (auto simp: prod.swap_def split: if_splits)
          have "\<exists>p. compose b front' back' sw sh (mx_mm * MM_TO_PT) (my_mm * MM_TO_PT) = Inr p"
            by (rule compose_fits) (simp_all only: w h gf)
          then obtain p where
            c: "compose b front' back' sw sh (mx_mm * MM_TO_PT) (my_mm * MM_TO_PT) = Inr p"
            by blast
          show ?thesis
            using len g nm e sb at c m mm by (intro plan [of sw sh scs b front' back' p]) auto
        qed
      qed
    qed
  qed
qed

lemma main_plan_Inr:
  assumes "main_plan a pages = Inr p"
  obtains sw sh scs b front' back' where
      "2 \<le> length pages" "get_sheet_size (paper a) = Inr (sw, sh)"
      "0 < sw - 2 * (fst (min_margins_mm a) * MM_TO_PT)"
      "0 < sh - 2 * (snd (min_margins_mm a) * MM_TO_PT)"
      "enumerate_scenarios (width (mediabox (pages ! 0))) (height (mediabox (pages ! 0)))
         (sw - 2 * (fst (min_margins_mm a) * MM_TO_PT))
         (sh - 2 * (snd (min_margins_mm a) * MM_TO_PT)) = Inr scs"
      "select_best scs = Inr b"
      "apply_trim b (pages ! 0) (pages ! 1) = Inr (front', back')"
      "compose b front' back' sw sh (fst (min_margins_mm a) * MM_TO_PT)
         (snd (min_margins_mm a) * MM_TO_PT) = Inr p"
  using assms by (cases a pages rule: main_plan_cases) auto

subsection \<open>Final margins without rounding\<close>

text \<open>
  In exact arithmetic the safety check never fails: the card re-read after the crop is the
  card the enumerator fitted, so the grid is inside the usable area.
\<close>

lemma exact_arithmetic_margins:
  "main_plan a pages \<noteq> Inl InvariantViolation \<and>
   (\<forall>p. main_plan a pages = Inr p \<longrightarrow>
      get_sheet_size (paper a) = Inr (sheet_w p, sheet_h p) \<and>
      plan_card_w_eff p =
        (if rotate (best p) then height (mediabox (front_page p))
         else width (mediabox (front_page p))) \<and>
      plan_card_h_eff p =
        (if rotate (best p) then width (mediabox (front_page p))
         else height (mediabox (front_page p))) \<and>
      margin_x p = (sheet_w p - of_int (cols (best p)) * plan_card_w_eff p) / 2 \<and>
      margin_y p = (sheet_h p - of_int (rows (best p)) * plan_card_h_eff p) / 2 \<and>
      fst (min_margins_mm a) * MM_TO_PT - 0.01 \<le> margin_x p \<and>
      snd (min_margins_mm a) * MM_TO_PT - 0.01 \<le> margin_y p)"
proof (intro conjI allI impI)
  show "main_plan a pages \<noteq> Inl InvariantViolation"
    by (cases a pages rule: main_plan_cases) simp_all
next
  fix p
  assume "main_plan a pages = Inr p"
  then obtain sw sh scs b front' back' where
    g: "get_sheet_size (paper a) = Inr (sw, sh)" and
    c: "compose b front' back' sw sh (fst (min_margins_mm a) * MM_TO_PT)
         (snd (min_margins_mm a) * MM_TO_PT) = Inr p"
    by (rule main_plan_Inr)
  note r = compose_Inr [OF c]
  show "get_sheet_size (paper a) = Inr (sheet_w p, sheet_h p)"
    using g r(4,5) by simp
  show "plan_card_w_eff p =
        (if rotate (best p) then height (mediabox (front_page p))
         else width (mediabox (front_page p)))"
    using r(8) by (simp add: r(1,2,6,7))
  show "plan_card_h_eff p =
        (if rotate (best p) then width (mediabox (front_page p))
         else height (mediabox (front_page p)))"
    using r(9) by (simp add: r(1,2,6,7))
  show "margin_x p = (sheet_w p - of_int (cols (best p)) * plan_card_w_eff p) / 2"
    using r(10) by (simp add: r(1,4))
  show "margin_y p = (sheet_h p - of_int (rows (best p)) * plan_card_h_eff p) / 2"
    using r(11) by (simp add: r(1,5))
  show "fst (min_margins_mm a) * MM_TO_PT - 0.01 \<le> margin_x p"
    by (rule r(12))
  show "snd (min_margins_mm a) * MM_TO_PT - 0.01 \<le> margin_y p"
    by (rule r(13))
qed

subsection \<open>Evaluating double precision\<close>

text \<open>
  Rounding on numerals is computed by the simplifier: the bit length of a numeral by
  halving, the rest by the definitions. The first values can be compared with what the
  interpreter prints for \<open>(72 / 25.4).as_integer_ratio()\<close> and \<open>1 // 0.1\<close>.
\<close>

lemma bitlen_numeral_step:
  "bitlen (numeral n) = bitlen (numeral n div 2) + 1"
  by (subst compute_bitlen) simp

lemma bitlen_one: "bitlen 1 = 1"
  by (subst compute_bitlen) simp

lemmas fl_eval = fl_def binary_exponent_def pow2_def round_half_even_def Let_def
  bitlen_numeral_step bitlen_one

lemma fl_examples:
  "fl (254 / 10) = 3574732204225331 / 140737488355328"
  "fl (1 / 100) = 5764607523034235 / 576460752303423488"
  "fl (2 ^ 53 + 1) = 2 ^ 53"
  "fl (2 ^ 53 + 3) = 2 ^ 53 + 4"
  "fl (- (1 / 3)) = - (6004799503160661 / 18014398509481984)"
  by (simp_all add: fl_eval)

lemma float_floor_div_examples:
  "float_floor_div 7 2 = Inr 3"
  "float_floor_div (- 7) 2 = Inr (- 4)"
  "float_floor_div 1 (fl (1 / 10)) = Inr 9"
  "float_floor_div 1 0 = Inl ZeroDivisionError"
  by (simp_all add: float_floor_div_def fmod_def fl_eval)










subsection \<open>The outcomes of the planning part in double precision\<close>











subsection \<open>Final margins\<close>




subsection \<open>Capacity and margins\<close>

lemma fits_mono:
  assumes "fits cw ch uw2 uh2 rot" and "uw2 \<le> uw1" and "uh2 \<le> uh1"
    and "0 < cw" and "0 < ch"
  shows "fits cw ch uw1 uh1 rot"
    and "capacity (mk_scenario t cw ch uw2 uh2 rot) \<le> capacity (mk_scenario t cw ch uw1 uh1 rot)"
proof -
  let ?w = "if rot then ch else cw" and ?h = "if rot then cw else ch"
  have w: "0 < ?w" and h: "0 < ?h" using assms(4,5) by simp_all
  have c: "\<lfloor>uw2 / ?w\<rfloor> \<le> \<lfloor>uw1 / ?w\<rfloor>"
    using assms(2) w by (intro floor_mono divide_right_mono) simp_all
  have r: "\<lfloor>uh2 / ?h\<rfloor> \<le> \<lfloor>uh1 / ?h\<rfloor>"
    using assms(3) h by (intro floor_mono divide_right_mono) simp_all
  have c2: "1 \<le> \<lfloor>uw2 / ?w\<rfloor>" and r2: "1 \<le> \<lfloor>uh2 / ?h\<rfloor>"
    using assms(1) by (simp_all only: fits_def)
  show "fits cw ch uw1 uh1 rot"
    unfolding fits_def using c r c2 r2 by linarith
  have "\<lfloor>uw2 / ?w\<rfloor> * \<lfloor>uh2 / ?h\<rfloor> \<le> \<lfloor>uw1 / ?w\<rfloor> * \<lfloor>uh1 / ?h\<rfloor>"
    using c r c2 r2 by (intro mult_mono) linarith+
  then show "capacity (mk_scenario t cw ch uw2 uh2 rot) \<le> capacity (mk_scenario t cw ch uw1 uh1 rot)"
    by (simp only: mk_scenario_sel)
qed

lemma enumerate_mono:
  assumes e1: "enumerate_scenarios ow oh uw1 uh1 = Inr scs1"
    and e2: "enumerate_scenarios ow oh uw2 uh2 = Inr scs2"
    and le: "uw2 \<le> uw1" "uh2 \<le> uh1"
    and s2: "s2 \<in> set scs2"
  shows "\<exists>s1 \<in> set scs1. capacity s2 \<le> capacity s1"
proof -
  from s2 obtain t rot where
    t: "t = 0 \<or> t = 2" and
    pos: "0 < fst (trimmed_card ow oh t)" "0 < snd (trimmed_card ow oh t)" and
    f: "fits (fst (trimmed_card ow oh t)) (snd (trimmed_card ow oh t)) uw2 uh2 rot" and
    s: "s2 = mk_scenario t (fst (trimmed_card ow oh t)) (snd (trimmed_card ow oh t)) uw2 uh2 rot"
    unfolding in_enumerate_scenarios [OF e2] by blast
  let ?s1 = "mk_scenario t (fst (trimmed_card ow oh t)) (snd (trimmed_card ow oh t)) uw1 uh1 rot"
  note fm = fits_mono [OF f le pos]
  have "?s1 \<in> set scs1"
    unfolding in_enumerate_scenarios [OF e1] using t pos fm(1) by blast
  moreover have "capacity s2 \<le> capacity ?s1"
    unfolding s by (rule fm(2))
  ultimately show ?thesis by blast
qed

text \<open>
  Claim C8. Two runs on the same pages and the same paper format that both return a plan:
  when neither minimum margin of the second run is smaller than that of the first, the
  capacity chosen by the second run is at most the capacity chosen by the first.
\<close>

theorem capacity_antitone_in_margins:
  assumes "main_plan a1 pages = Inr p1" and "main_plan a2 pages = Inr p2"
    and "paper a2 = paper a1"
    and "fst (min_margins_mm a1) \<le> fst (min_margins_mm a2)"
    and "snd (min_margins_mm a1) \<le> snd (min_margins_mm a2)"
  shows "capacity (best p2) \<le> capacity (best p1)"
proof -
  let ?ow = "width (mediabox (pages ! 0))" and ?oh = "height (mediabox (pages ! 0))"
  from assms(1) obtain sw sh scs1 b1 f1 k1 where
    g1: "get_sheet_size (paper a1) = Inr (sw, sh)" and
    e1: "enumerate_scenarios ?ow ?oh
         (sw - 2 * (fst (min_margins_mm a1) * MM_TO_PT))
         (sh - 2 * (snd (min_margins_mm a1) * MM_TO_PT)) = Inr scs1" and
    sb1: "select_best scs1 = Inr b1" and
    c1: "compose b1 f1 k1 sw sh (fst (min_margins_mm a1) * MM_TO_PT)
         (snd (min_margins_mm a1) * MM_TO_PT) = Inr p1"
    by (rule main_plan_Inr)
  from assms(2) obtain sw' sh' scs2 b2 f2 k2 where
    g2: "get_sheet_size (paper a2) = Inr (sw', sh')" and
    e2': "enumerate_scenarios ?ow ?oh
         (sw' - 2 * (fst (min_margins_mm a2) * MM_TO_PT))
         (sh' - 2 * (snd (min_margins_mm a2) * MM_TO_PT)) = Inr scs2" and
    sb2: "select_best scs2 = Inr b2" and
    c2: "compose b2 f2 k2 sw' sh' (fst (min_margins_mm a2) * MM_TO_PT)
         (snd (min_margins_mm a2) * MM_TO_PT) = Inr p2"
    by (rule main_plan_Inr)
  have same: "sw' = sw" "sh' = sh"
    using g1 g2 assms(3) by simp_all
  note e2 = e2' [unfolded same]
  have pt: "0 < MM_TO_PT" by (simp add: MM_TO_PT_def)
  have le: "sw - 2 * (fst (min_margins_mm a2) * MM_TO_PT)
              \<le> sw - 2 * (fst (min_margins_mm a1) * MM_TO_PT)"
           "sh - 2 * (snd (min_margins_mm a2) * MM_TO_PT)
              \<le> sh - 2 * (snd (min_margins_mm a1) * MM_TO_PT)"
    using assms(4,5) pt by simp_all
  have b2: "b2 \<in> set scs2" using sb2 by (rule select_best_member)
  from enumerate_mono [OF e1 e2 le b2] obtain s1 where
    s1: "s1 \<in> set scs1" and cap: "capacity b2 \<le> capacity s1"
    by blast
  have ne: "scs1 \<noteq> []" using s1 by auto
  from select_best_max [OF ne] sb1 s1 have "scenario_key s1 \<le> scenario_key b1"
    by auto
  then have "capacity s1 \<le> capacity b1"
    by (auto simp: scenario_key_le)
  with cap show ?thesis
    by (simp add: compose_Inr(1) [OF c1] compose_Inr(1) [OF c2])
qed

theorem capacity_antitone_in_margins_witness:
  "\<exists>p1 p2.
     main_plan \<lparr>paper = ''A4'', margin_mm = None, margin_x_mm = 5, margin_y_mm = 5\<rparr>
       [\<lparr>mediabox = \<lparr>lower_left = (0, 0), upper_right = (90 * MM_TO_PT, 50 * MM_TO_PT)\<rparr>\<rparr>,
        \<lparr>mediabox = \<lparr>lower_left = (0, 0), upper_right = (90 * MM_TO_PT, 50 * MM_TO_PT)\<rparr>\<rparr>]
       = Inr p1 \<and>
     main_plan \<lparr>paper = ''A4'', margin_mm = Some 30, margin_x_mm = 5, margin_y_mm = 5\<rparr>
       [\<lparr>mediabox = \<lparr>lower_left = (0, 0), upper_right = (90 * MM_TO_PT, 50 * MM_TO_PT)\<rparr>\<rparr>,
        \<lparr>mediabox = \<lparr>lower_left = (0, 0), upper_right = (90 * MM_TO_PT, 50 * MM_TO_PT)\<rparr>\<rparr>]
       = Inr p2 \<and>
     capacity (best p1) = 12 \<and> capacity (best p2) = 6 \<and>
     capacity (best p2) \<le> capacity (best p1)"
proof -
  let ?a1 = "\<lparr>paper = ''A4'', margin_mm = None, margin_x_mm = 5, margin_y_mm = 5\<rparr>"
  let ?a2 = "\<lparr>paper = ''A4'', margin_mm = Some 30, margin_x_mm = 5, margin_y_mm = 5\<rparr>"
  let ?ps = "[\<lparr>mediabox = \<lparr>lower_left = (0, 0), upper_right = (90 * MM_TO_PT, 50 * MM_TO_PT)\<rparr>\<rparr>,
           \<lparr>mediabox = \<lparr>lower_left = (0, 0), upper_right = (90 * MM_TO_PT, 50 * MM_TO_PT)\<rparr>\<rparr>]"
  have v1: "map_sum id (\<lambda>p. capacity (best p)) (main_plan ?a1 ?ps) = Inr 12"
    by code_simp
  have v2: "map_sum id (\<lambda>p. capacity (best p)) (main_plan ?a2 ?ps) = Inr 6"
    by code_simp
  from v1 obtain p1 where p1: "main_plan ?a1 ?ps = Inr p1"
    by (cases "main_plan ?a1 ?ps") simp_all
  from v2 obtain p2 where p2: "main_plan ?a2 ?ps = Inr p2"
    by (cases "main_plan ?a2 ?ps") simp_all
  have c: "capacity (best p1) = 12" "capacity (best p2) = 6"
    using v1 v2 by (simp_all add: p1 p2)
  have "capacity (best p2) \<le> capacity (best p1)"
    by (rule capacity_antitone_in_margins [OF p1 p2]) (simp_all add: min_margins_mm_def)
  with p1 p2 c show ?thesis by blast
qed

subsection \<open>Placement\<close>

lemma rotate_90:
  "transformation_rotate identity_transformation 90 = Transformation 0 1 (- 1) 0 0 0"
  by (simp add: identity_transformation_def)

lemma cell_transformation_simps:
  "cell_transformation True h (x, y) = Transformation 0 1 (- 1) 0 (x + h) y"
  "cell_transformation False h (x, y) = Transformation 1 0 0 1 x y"
  by (simp_all add: cell_transformation_def rotate_90) (simp add: identity_transformation_def)

lemma cell_transformation_shift:
  "cell_transformation rot h (x + ox, y + oy) =
     transformation_translate (cell_transformation rot h (x, y)) ox oy"
  by (cases rot) (simp_all add: cell_transformation_simps)

lemma cell_origin_shift:
  "cell_origin (mx + ox) (my + oy) w h col row =
     (fst (cell_origin mx my w h col row) + ox, snd (cell_origin mx my w h col row) + oy)"
  by (simp add: cell_origin_def)

lemma cell_shift:
  "cell_transformation rot hh (cell_origin (mx + ox) (my + oy) w h col row) =
     transformation_translate (cell_transformation rot hh (cell_origin mx my w h col row)) ox oy"
  by (cases rot) (simp_all add: cell_origin_def cell_transformation_simps)

lemma impose_side_shift:
  assumes "height (mediabox back) = height (mediabox front)"
  shows "impose_side back c r (mx + ox) (my + oy) w h rot =
     map (\<lambda>t. transformation_translate t ox oy) (impose_side front c r mx my w h rot)"
  using assms
  by (simp add: impose_side_def Let_def map_concat comp_def cell_shift)

text \<open>
  Claim C4. The front sheet holds, cell by cell (rows outside, columns inside), the
  transformation built from the unmodified cell origin
  \<open>(margin_x + col * card_w_eff, margin_y + row * card_h_eff)\<close>; the back sheet holds, for
  the same cells in the same order, the transformation built from that origin plus the
  duplex correction \<open>(BACK_OFFSET_X_MM, BACK_OFFSET_Y_MM)\<close> in points. When the back page
  is as high as the front page, every back transformation is the front transformation of
  its cell translated by the correction.
\<close>

theorem back_side_offset:
  "fst (main_emit p) =
     concat (map (\<lambda>row. map (\<lambda>col.
         cell_transformation (rotate (best p)) (height (mediabox (front_page p)))
           (cell_origin (margin_x p) (margin_y p) (plan_card_w_eff p) (plan_card_h_eff p)
              col row))
       [0..cols (best p) - 1]) [0..rows (best p) - 1]) \<and>
   snd (main_emit p) =
     concat (map (\<lambda>row. map (\<lambda>col.
         cell_transformation (rotate (best p)) (height (mediabox (back_page p)))
           (case cell_origin (margin_x p) (margin_y p) (plan_card_w_eff p) (plan_card_h_eff p)
                   col row of
              (x, y) \<Rightarrow> (x + BACK_OFFSET_X_MM * MM_TO_PT, y + BACK_OFFSET_Y_MM * MM_TO_PT)))
       [0..cols (best p) - 1]) [0..rows (best p) - 1]) \<and>
   (height (mediabox (back_page p)) = height (mediabox (front_page p)) \<longrightarrow>
      snd (main_emit p) =
        map (\<lambda>t. transformation_translate t
                   (BACK_OFFSET_X_MM * MM_TO_PT) (BACK_OFFSET_Y_MM * MM_TO_PT))
            (fst (main_emit p)))"
proof (intro conjI impI)
  show "fst (main_emit p) =
     concat (map (\<lambda>row. map (\<lambda>col.
         cell_transformation (rotate (best p)) (height (mediabox (front_page p)))
           (cell_origin (margin_x p) (margin_y p) (plan_card_w_eff p) (plan_card_h_eff p)
              col row))
       [0..cols (best p) - 1]) [0..rows (best p) - 1])"
    by (simp add: main_emit_def impose_side_def Let_def)
  show "snd (main_emit p) =
     concat (map (\<lambda>row. map (\<lambda>col.
         cell_transformation (rotate (best p)) (height (mediabox (back_page p)))
           (case cell_origin (margin_x p) (margin_y p) (plan_card_w_eff p) (plan_card_h_eff p)
                   col row of
              (x, y) \<Rightarrow> (x + BACK_OFFSET_X_MM * MM_TO_PT, y + BACK_OFFSET_Y_MM * MM_TO_PT)))
       [0..cols (best p) - 1]) [0..rows (best p) - 1])"
    by (simp add: main_emit_def impose_side_def Let_def cell_origin_shift case_prod_beta)
  assume "height (mediabox (back_page p)) = height (mediabox (front_page p))"
  then show "snd (main_emit p) =
        map (\<lambda>t. transformation_translate t
                   (BACK_OFFSET_X_MM * MM_TO_PT) (BACK_OFFSET_Y_MM * MM_TO_PT))
            (fst (main_emit p))"
    by (simp add: main_emit_def Let_def impose_side_shift)
qed


theorem back_side_offset_witness:
  "height (mediabox (back_page
      \<lparr>best = \<lparr>trim_mm = 0, rotate = True, cols = 2, rows = 1, inner_mx = 0, inner_my = 0,
                card_w_eff = 50, card_h_eff = 90, capacity = 2\<rparr>,
       front_page = \<lparr>mediabox = \<lparr>lower_left = (0, 0), upper_right = (90, 50)\<rparr>\<rparr>,
       back_page = \<lparr>mediabox = \<lparr>lower_left = (0, 0), upper_right = (90, 50)\<rparr>\<rparr>,
       sheet_w = 200, sheet_h = 100, final_card_w = 90, final_card_h = 50,
       plan_card_w_eff = 50, plan_card_h_eff = 90, margin_x = 50, margin_y = 5\<rparr>)) = 50 \<and>
   main_emit
      \<lparr>best = \<lparr>trim_mm = 0, rotate = True, cols = 2, rows = 1, inner_mx = 0, inner_my = 0,
                card_w_eff = 50, card_h_eff = 90, capacity = 2\<rparr>,
       front_page = \<lparr>mediabox = \<lparr>lower_left = (0, 0), upper_right = (90, 50)\<rparr>\<rparr>,
       back_page = \<lparr>mediabox = \<lparr>lower_left = (0, 0), upper_right = (90, 50)\<rparr>\<rparr>,
       sheet_w = 200, sheet_h = 100, final_card_w = 90, final_card_h = 50,
       plan_card_w_eff = 50, plan_card_h_eff = 90, margin_x = 50, margin_y = 5\<rparr> =
     ([Transformation 0 1 (- 1) 0 100 5, Transformation 0 1 (- 1) 0 150 5],
      [Transformation 0 1 (- 1) 0 (100 + BACK_OFFSET_X_MM * MM_TO_PT) (5 + BACK_OFFSET_Y_MM * MM_TO_PT),
       Transformation 0 1 (- 1) 0 (150 + BACK_OFFSET_X_MM * MM_TO_PT) (5 + BACK_OFFSET_Y_MM * MM_TO_PT)])"
proof -
  let ?p = "\<lparr>best = \<lparr>trim_mm = 0, rotate = True, cols = 2, rows = 1, inner_mx = 0, inner_my = 0,
                card_w_eff = 50, card_h_eff = 90, capacity = 2\<rparr>,
       front_page = \<lparr>mediabox = \<lparr>lower_left = (0, 0), upper_right = (90, 50)\<rparr>\<rparr>,
       back_page = \<lparr>mediabox = \<lparr>lower_left = (0, 0), upper_right = (90, 50)\<rparr>\<rparr>,
       sheet_w = 200, sheet_h = 100, final_card_w = 90, final_card_h = 50,
       plan_card_w_eff = 50, plan_card_h_eff = 90, margin_x = 50, margin_y = 5\<rparr>"
  have u: "[0..(1::int)] = [0, 1]" "[0..(0::int)] = [0]"
    by (simp_all add: upto.simps)
  have h: "height (mediabox (back_page ?p)) = 50" "height (mediabox (front_page ?p)) = 50"
    by (simp_all add: height_def)
  have f: "fst (main_emit ?p) =
      [Transformation 0 1 (- 1) 0 100 5, Transformation 0 1 (- 1) 0 150 5]"
    using back_side_offset [of ?p]
    by (simp add: u height_def cell_origin_def cell_transformation_simps)
  have b: "snd (main_emit ?p) =
        map (\<lambda>t. transformation_translate t
                   (BACK_OFFSET_X_MM * MM_TO_PT) (BACK_OFFSET_Y_MM * MM_TO_PT))
            (fst (main_emit ?p))"
    by (rule mp [OF conjunct2 [OF conjunct2 [OF back_side_offset [of ?p]]]])
       (simp add: height_def)
  have "main_emit ?p = (fst (main_emit ?p), snd (main_emit ?p))"
    by simp
  also have "\<dots> = ([Transformation 0 1 (- 1) 0 100 5, Transformation 0 1 (- 1) 0 150 5],
      [Transformation 0 1 (- 1) 0 (100 + BACK_OFFSET_X_MM * MM_TO_PT) (5 + BACK_OFFSET_Y_MM * MM_TO_PT),
       Transformation 0 1 (- 1) 0 (150 + BACK_OFFSET_X_MM * MM_TO_PT) (5 + BACK_OFFSET_Y_MM * MM_TO_PT)])"
    unfolding b unfolding f by simp
  finally show ?thesis
    using h(1) by simp
qed

text \<open>
  How a placed card lies on the sheet. For a box with lower-left corner \<open>(llx, lly)\<close> and
  the height the emitter reads from it, the bounding box of the rotated card has its
  lower-left corner at \<open>(x - lly, y + llx)\<close>, and that of the unrotated card at
  \<open>(x + llx, y + lly)\<close>, where \<open>(x, y)\<close> is the cell origin. This is the cell origin
  exactly when the box starts at \<open>(0, 0)\<close>.
\<close>

lemma placed_lower_left_rotated:
  assumes "llx \<le> urx" and "lly \<le> ury"
  shows "placed_lower_left (cell_transformation True (ury - lly) (x, y))
           \<lparr>lower_left = (llx, lly), upper_right = (urx, ury)\<rparr> = (x - lly, y + llx)"
  using assms
  by (simp add: placed_lower_left_def placed_corners_def cell_transformation_simps Let_def
        min_def)

lemma placed_lower_left_plain:
  assumes "llx \<le> urx" and "lly \<le> ury"
  shows "placed_lower_left (cell_transformation False h (x, y))
           \<lparr>lower_left = (llx, lly), upper_right = (urx, ury)\<rparr> = (x + llx, y + lly)"
  using assms
  by (simp add: placed_lower_left_def placed_corners_def cell_transformation_simps Let_def
        min_def)

text \<open>
  The same for any page box with ordered corners, with the height read from the box as
  \<open>impose_side\<close> reads it: the placed card's lower-left corner is the cell origin shifted
  by \<open>(- lly, llx)\<close> when rotated and by \<open>(llx, lly)\<close> when not.
\<close>

theorem placed_card_lower_left:
  assumes "fst (lower_left r) \<le> fst (upper_right r)"
    and "snd (lower_left r) \<le> snd (upper_right r)"
  shows "placed_lower_left (cell_transformation True (height r) (x, y)) r =
           (x - snd (lower_left r), y + fst (lower_left r)) \<and>
         placed_lower_left (cell_transformation False (height r) (x, y)) r =
           (x + fst (lower_left r), y + snd (lower_left r))"
proof -
  obtain llx lly urx ury where r: "r = \<lparr>lower_left = (llx, lly), upper_right = (urx, ury)\<rparr>"
    by (cases r) auto
  show ?thesis
    using assms placed_lower_left_rotated [of llx urx lly ury x y]
      placed_lower_left_plain [of llx urx lly ury "ury - lly" x y]
    by (simp add: r height_def)
qed

theorem placed_card_lower_left_witness:
  "placed_lower_left (cell_transformation True 50 (100, 10))
     \<lparr>lower_left = (0, 0), upper_right = (90, 50)\<rparr> = (100, 10) \<and>
   placed_lower_left (cell_transformation False 46 (100, 10))
     \<lparr>lower_left = (2, 2), upper_right = (88, 48)\<rparr> = (102, 12)"
proof -
  have h: "height \<lparr>lower_left = (0, 0), upper_right = (90, 50)\<rparr> = 50"
    "height \<lparr>lower_left = (2, 2), upper_right = (88, 48)\<rparr> = 46"
    by (simp_all add: height_def)
  show ?thesis
    using placed_card_lower_left [of "\<lparr>lower_left = (0, 0), upper_right = (90, 50)\<rparr>" 100 10]
      placed_card_lower_left [of "\<lparr>lower_left = (2, 2), upper_right = (88, 48)\<rparr>" 100 10]
    by (simp add: h)
qed

text \<open>
  Claim C1, at an input where it fails. A4 sheet, 5 mm margins, both pages 90 mm by 52 mm
  with the box at \<open>(0, 0)\<close>: the chosen scenario has trim 2 mm and rotation, the crop
  moves the lower-left corner of the front page's box to (2 mm, 2 mm), the origin of cell
  (0, 0) is \<open>(3240 / 127, 7020 / 127)\<close>, and the transformation emitted for that cell puts
  the lower-left corner of the card's bounding box 2 mm to the left of and 2 mm above it.
\<close>

theorem rotated_trimmed_card_off_cell_origin:
  "map_sum id
     (\<lambda>p. (trim_mm (best p), rotate (best p), lower_left (mediabox (front_page p)),
           cell_origin (margin_x p) (margin_y p) (plan_card_w_eff p) (plan_card_h_eff p) 0 0,
           placed_lower_left (hd (fst (main_emit p))) (mediabox (front_page p))))
     (main_plan \<lparr>paper = ''A4'', margin_mm = None, margin_x_mm = 5, margin_y_mm = 5\<rparr>
        [\<lparr>mediabox = \<lparr>lower_left = (0, 0), upper_right = (90 * MM_TO_PT, 52 * MM_TO_PT)\<rparr>\<rparr>,
         \<lparr>mediabox = \<lparr>lower_left = (0, 0), upper_right = (90 * MM_TO_PT, 52 * MM_TO_PT)\<rparr>\<rparr>]) =
   Inr (2, True, (2 * MM_TO_PT, 2 * MM_TO_PT),
        (3240 / 127, 7020 / 127),
        (3240 / 127 - 2 * MM_TO_PT, 7020 / 127 + 2 * MM_TO_PT))"
proof -
  let ?a = "\<lparr>paper = ''A4'', margin_mm = None, margin_x_mm = 5, margin_y_mm = 5\<rparr>"
  let ?ps = "[\<lparr>mediabox = \<lparr>lower_left = (0, 0), upper_right = (90 * MM_TO_PT, 52 * MM_TO_PT)\<rparr>\<rparr>,
         \<lparr>mediabox = \<lparr>lower_left = (0, 0), upper_right = (90 * MM_TO_PT, 52 * MM_TO_PT)\<rparr>\<rparr>]"
  have v: "main_plan ?a ?ps = Inr
     \<lparr>best = \<lparr>trim_mm = 2, rotate = True, cols = 4, rows = 3,
               inner_mx = 1440 / 127, inner_my = 5220 / 127,
               card_w_eff = 17280 / 127, card_h_eff = 30960 / 127, capacity = 12\<rparr>,
      front_page = \<lparr>mediabox = \<lparr>lower_left = (720 / 127, 720 / 127),
                                   upper_right = (31680 / 127, 18000 / 127)\<rparr>\<rparr>,
      back_page = \<lparr>mediabox = \<lparr>lower_left = (720 / 127, 720 / 127),
                                  upper_right = (31680 / 127, 18000 / 127)\<rparr>\<rparr>,
      sheet_w = 75600 / 127, sheet_h = 106920 / 127,
      final_card_w = 30960 / 127, final_card_h = 17280 / 127,
      plan_card_w_eff = 17280 / 127, plan_card_h_eff = 30960 / 127,
      margin_x = 3240 / 127, margin_y = 7020 / 127\<rparr>"
    by code_simp
  have u: "[0..(3::int)] = [0, 1, 2, 3]" "[0..(2::int)] = [0, 1, 2]"
    by (simp_all add: upto.simps)
  let ?p = "\<lparr>best = \<lparr>trim_mm = 2, rotate = True, cols = 4, rows = 3,
               inner_mx = 1440 / 127, inner_my = 5220 / 127,
               card_w_eff = 17280 / 127, card_h_eff = 30960 / 127, capacity = 12\<rparr>,
      front_page = \<lparr>mediabox = \<lparr>lower_left = (720 / 127, 720 / 127),
                                   upper_right = (31680 / 127, 18000 / 127)\<rparr>\<rparr>,
      back_page = \<lparr>mediabox = \<lparr>lower_left = (720 / 127, 720 / 127),
                                  upper_right = (31680 / 127, 18000 / 127)\<rparr>\<rparr>,
      sheet_w = 75600 / 127, sheet_h = 106920 / 127,
      final_card_w = 30960 / 127, final_card_h = 17280 / 127,
      plan_card_w_eff = 17280 / 127, plan_card_h_eff = 30960 / 127,
      margin_x = 3240 / 127, margin_y = 7020 / 127\<rparr>"
  have f: "hd (fst (main_emit ?p)) =
      cell_transformation True (17280 / 127) (3240 / 127, 7020 / 127)"
    by (simp add: main_emit_def impose_side_def Let_def u height_def cell_origin_def)
  have pl: "placed_lower_left
      (cell_transformation True (17280 / 127) (3240 / 127, 7020 / 127))
      \<lparr>lower_left = (720 / 127, 720 / 127), upper_right = (31680 / 127, 18000 / 127)\<rparr> =
      (2520 / 127, 7740 / 127)"
    using placed_lower_left_rotated
      [of "720 / 127" "31680 / 127" "720 / 127" "18000 / 127" "3240 / 127" "7020 / 127"]
    by simp
  show ?thesis
    unfolding v by (simp add: f pl cell_origin_def MM_TO_PT_def)
qed

subsection \<open>The A4 example\<close>

text \<open>
  Claim C9. A4 sheet, card 90 mm by 50 mm, 5 mm margins: the enumerator yields four
  scenarios, the one without trim and without rotation with 2 columns and 5 rows
  (capacity 10); the program chooses the scenario without trim and with rotation, of
  capacity 12, which is the maximum of the capacities of the four scenarios.
\<close>

theorem a4_card_90_50_example:
  "map_sum id (map (\<lambda>s. (trim_mm s, rotate s, cols s, rows s, capacity s)))
     (enumerate_scenarios (90 * MM_TO_PT) (50 * MM_TO_PT)
        (210 * MM_TO_PT - 2 * (5 * MM_TO_PT)) (297 * MM_TO_PT - 2 * (5 * MM_TO_PT))) =
     Inr [(0, False, 2, 5, 10), (0, True, 4, 3, 12), (2, False, 2, 6, 12), (2, True, 4, 3, 12)] \<and>
   map_sum id (\<lambda>p. (trim_mm (best p), rotate (best p), cols (best p), rows (best p),
                      capacity (best p)))
     (main_plan \<lparr>paper = ''A4'', margin_mm = None, margin_x_mm = 5, margin_y_mm = 5\<rparr>
        [\<lparr>mediabox = \<lparr>lower_left = (0, 0), upper_right = (90 * MM_TO_PT, 50 * MM_TO_PT)\<rparr>\<rparr>,
         \<lparr>mediabox = \<lparr>lower_left = (0, 0), upper_right = (90 * MM_TO_PT, 50 * MM_TO_PT)\<rparr>\<rparr>]) =
     Inr (0, True, 4, 3, 12) \<and>
   map_sum id (\<lambda>scs. Max (set (map capacity scs)))
     (enumerate_scenarios (90 * MM_TO_PT) (50 * MM_TO_PT)
        (210 * MM_TO_PT - 2 * (5 * MM_TO_PT)) (297 * MM_TO_PT - 2 * (5 * MM_TO_PT))) = Inr 12"
proof (intro conjI)
  show "map_sum id (map (\<lambda>s. (trim_mm s, rotate s, cols s, rows s, capacity s)))
     (enumerate_scenarios (90 * MM_TO_PT) (50 * MM_TO_PT)
        (210 * MM_TO_PT - 2 * (5 * MM_TO_PT)) (297 * MM_TO_PT - 2 * (5 * MM_TO_PT))) =
     Inr [(0, False, 2, 5, 10), (0, True, 4, 3, 12), (2, False, 2, 6, 12), (2, True, 4, 3, 12)]"
    by code_simp
  show "map_sum id (\<lambda>p. (trim_mm (best p), rotate (best p), cols (best p), rows (best p),
                      capacity (best p)))
     (main_plan \<lparr>paper = ''A4'', margin_mm = None, margin_x_mm = 5, margin_y_mm = 5\<rparr>
        [\<lparr>mediabox = \<lparr>lower_left = (0, 0), upper_right = (90 * MM_TO_PT, 50 * MM_TO_PT)\<rparr>\<rparr>,
         \<lparr>mediabox = \<lparr>lower_left = (0, 0), upper_right = (90 * MM_TO_PT, 50 * MM_TO_PT)\<rparr>\<rparr>]) =
     Inr (0, True, 4, 3, 12)"
    by code_simp
  show "map_sum id (\<lambda>scs. Max (set (map capacity scs)))
     (enumerate_scenarios (90 * MM_TO_PT) (50 * MM_TO_PT)
        (210 * MM_TO_PT - 2 * (5 * MM_TO_PT)) (297 * MM_TO_PT - 2 * (5 * MM_TO_PT))) = Inr 12"
    by code_simp
qed

end
